theory Spec2Isabelle
  imports Complex_Main "HOL-Library.Multiset" "HOL-Library.AList"
begin

section \<open>The build-order environment of \<open>env.py\<close>\<close>

text \<open>
  A shallow embedding of the simulation in \<open>src/env.py\<close>: the dependency and instruction
  generators, the per-tick state generator with its worker resolution, and the
  orchestrating generator behind \<open>step\<close>.

  The module \<open>data_types.py\<close> that \<open>env.py\<close> imports is not among the sources. Its
  constants (\<open>WORLD_SIZE\<close>, \<open>Buildings\<close>, the members of \<open>Worker\<close>, the cost table) are
  taken as parameters, collected in the record \<open>data_types\<close>; the interface of
  \<open>CompoundAction\<close> is a record of functions; \<open>Assignment.action\<close> is modelled from the
  specification and marked so.

  Random draws are explicit arguments: every call of \<open>self.random\<close> in the source is an
  argument of the corresponding function of the model.
\<close>

subsection \<open>Data\<close>

type_synonym Coord = "int \<times> int"

datatype Resource = MINERALS | GAS

text \<open>
  \<open>Building\<close> objects are told apart by their class only (\<open>isinstance\<close>); the two classes
  the environment names are constructors of their own.
\<close>

datatype Building = Assimilator | Nexus | OtherBuilding nat

type_synonym Worker = nat

datatype WorldObject = Bldg Building | Res Resource | Wrk Worker

datatype WorkerAction = Movement int int | Build Building | Unrecognised

datatype Assignment = Gather Resource | BuildOrder Building Coord

datatype error =
  KeyError | RuntimeError | ValueError | AttributeError | AssertionError | IndexError
  | RecursionError

record Line =
  required :: bool
  building :: Building

text \<open>
  A Python \<open>dict\<close> is an association list in insertion order: \<open>AList.update\<close> replaces
  the value of a key that is present, in place, and appends a new key at the end;
  \<open>AList.delete\<close> is \<open>del d[k]\<close>.
\<close>

type_synonym ('k, 'v) dict = "('k \<times> 'v) list"

definition getitem :: "('k, 'v) dict \<Rightarrow> 'k \<Rightarrow> error + 'v" where
  "getitem d k = (case map_of d k of None \<Rightarrow> Inl KeyError | Some v \<Rightarrow> Inr v)"

definition dict_of :: "('k \<times> 'v) list \<Rightarrow> ('k, 'v) dict" where
  "dict_of kvs = foldl (\<lambda>d kv. AList.update (fst kv) (snd kv) d) [] kvs"

text \<open>The parts of \<open>data_types.py\<close> that the environment reads, as parameters.\<close>

record data_types =
  WORLD_SIZE :: int
  Buildings :: "Building list"
  Workers :: "Worker list"
  cost :: "Building \<Rightarrow> Resource multiset"

text \<open>The fields of the dataclass \<open>Env\<close> and of its curriculum setting that the simulation reads.\<close>

record Env =
  assimilator_prob :: rat
  destroy_building_prob :: rat
  eval_steps :: int
  num_initial_buildings :: nat
  time_per_line :: int
  evaluating :: bool
  max_lines :: int
  max_build_tree_depth :: int
  level :: int

text \<open>The dataclass \<open>State\<close>, one snapshot per tick.\<close>

record 'a State =
  building_positions :: "(Coord, Building) dict"
  next_action :: "(Worker, WorkerAction) dict"
  positions :: "(WorldObject, Coord) dict"
  resources :: "Resource multiset"
  success :: bool
  pointer :: int
  action :: 'a
  time_remaining :: int

text \<open>
  The local variables of \<open>state_generator\<close>, which live across its \<open>yield\<close>. The
  dictionaries and the counter of a \<open>State\<close> are these very objects; they are only read
  between two resumptions of the generator, so a snapshot holds their values.
\<close>

record 'a frame =
  sg_building_positions :: "(Coord, Building) dict"
  sg_positions :: "(WorldObject, Coord) dict"
  sg_assignments :: "(Worker, Assignment) dict"
  sg_next_actions :: "(Worker, WorkerAction) dict"
  sg_required :: "Building multiset"
  sg_resources :: "Resource multiset"
  sg_ptr :: int
  sg_action :: 'a
  sg_time_remaining :: int
  sg_nexus_positions :: "Coord list"

subsection \<open>Worker actions\<close>

text \<open>
  Modelled from the spec: \<open>Assignment.action\<close> of \<open>data_types.py\<close>, which is not among
  the sources. A construct assignment yields its building when the worker stands at the
  target location, else a movement toward it; a gather assignment moves toward the
  resource, and from the resource's tile toward the nearest Nexus. A movement is one
  axis-aligned step.
\<close>

definition step_toward :: "Coord \<Rightarrow> Coord \<Rightarrow> WorkerAction" where
  "step_toward cur tgt =
     (if fst cur \<noteq> fst tgt then Movement (sgn (fst tgt - fst cur)) 0
      else Movement 0 (sgn (snd tgt - snd cur)))"

definition manhattan :: "Coord \<Rightarrow> Coord \<Rightarrow> int" where
  "manhattan p q = \<bar>fst p - fst q\<bar> + \<bar>snd p - snd q\<bar>"

fun nearest :: "Coord \<Rightarrow> Coord list \<Rightarrow> error + Coord" where
  "nearest cur [] = Inl ValueError"
| "nearest cur [p] = Inr p"
| "nearest cur (p # q # ps) =
     (case nearest cur (q # ps) of
        Inl e \<Rightarrow> Inl e
      | Inr r \<Rightarrow> Inr (if manhattan cur p \<le> manhattan cur r then p else r))"

fun assignment_action ::
  "Assignment \<Rightarrow> Coord \<Rightarrow> (WorldObject, Coord) dict \<Rightarrow> Coord list \<Rightarrow> error + WorkerAction" where
  "assignment_action (BuildOrder b l) current_position ps nexus =
     Inr (if current_position = l then Build b else step_toward current_position l)"
| "assignment_action (Gather r) current_position ps nexus =
     (case getitem ps (Res r) of
        Inl e \<Rightarrow> Inl e
      | Inr target \<Rightarrow>
          if current_position = target then
            (case nearest current_position nexus of
               Inl e \<Rightarrow> Inl e
             | Inr n \<Rightarrow> Inr (step_toward current_position n))
          else Inr (step_toward current_position target))"

text \<open>\<open>assignment.location\<close>: only a build order has the attribute.\<close>

fun location :: "Assignment \<Rightarrow> error + Coord" where
  "location (BuildOrder b l) = Inr l"
| "location (Gather r) = Inl AttributeError"

fun is_BuildOrder :: "Assignment \<Rightarrow> bool" where
  "is_BuildOrder (BuildOrder b l) = True"
| "is_BuildOrder (Gather r) = False"

subsection \<open>\<open>gathered_resource\<close> and \<open>building_allowed\<close>\<close>

definition gathered_resource ::
  "(Coord, Building) dict \<Rightarrow> (WorldObject, Coord) dict \<Rightarrow> Resource \<Rightarrow> Coord \<Rightarrow> error + bool" where
  "gathered_resource bps ps resource worker_position =
     (case getitem ps (Res resource) of
        Inl e \<Rightarrow> Inl e
      | Inr p \<Rightarrow> Inr (p = worker_position \<and>
                      (resource \<noteq> GAS \<or> map_of bps worker_position = Some Assimilator)))"

text \<open>
  The values that meet in the membership test \<open>dependency not in [*building_positions, None]\<close>
  of \<open>building_allowed\<close>: its argument \<open>building_positions\<close> is the list of the
  dictionary's keys (the caller passes \<open>[*building_positions]\<close>), so the list holds
  coordinates and \<open>None\<close>, and the dependency is a building or \<open>None\<close>. A building equals
  no coordinate.
\<close>

datatype pyobj = PyNone | PyCoord Coord | PyBuilding Building

fun py_of_dependency :: "Building option \<Rightarrow> pyobj" where
  "py_of_dependency None = PyNone"
| "py_of_dependency (Some b) = PyBuilding b"

definition building_allowed ::
  "Building \<Rightarrow> Building option \<Rightarrow> Coord list \<Rightarrow> bool \<Rightarrow> (WorldObject, Coord) dict \<Rightarrow> Coord
     \<Rightarrow> error + bool" where
  "building_allowed bldg dependency bps insufficient_resources ps assignment_location =
     (if insufficient_resources
         \<or> assignment_location \<in> set bps
         \<or> py_of_dependency dependency \<notin> set (map PyCoord bps @ [PyNone])
      then Inr False
      else if bldg = Assimilator then
        (case getitem ps (Res GAS) of
           Inl e \<Rightarrow> Inl e
         | Inr g \<Rightarrow> Inr (assignment_location = g))
      else
        (case getitem ps (Res GAS) of
           Inl e \<Rightarrow> Inl e
         | Inr g \<Rightarrow>
             (case getitem ps (Res MINERALS) of
                Inl e \<Rightarrow> Inl e
              | Inr m \<Rightarrow> Inr (assignment_location \<notin> {g, m}))))"

subsection \<open>Resolving one worker (the body of the loop over the sorted assignments)\<close>

fun foldE :: "('x \<Rightarrow> 's \<Rightarrow> error + 's) \<Rightarrow> 'x list \<Rightarrow> 's \<Rightarrow> error + 's" where
  "foldE f [] s = Inr s"
| "foldE f (x # xs) s = (case f x s of Inl e \<Rightarrow> Inl e | Inr s' \<Rightarrow> foldE f xs s')"

definition deposit :: "Coord \<Rightarrow> Resource \<Rightarrow> 'a frame \<Rightarrow> error + 'a frame" where
  "deposit worker_position resource s =
     (case gathered_resource (sg_building_positions s) (sg_positions s) resource worker_position of
        Inl e \<Rightarrow> Inl e
      | Inr g \<Rightarrow> Inr (if g then s\<lparr>sg_resources := add_mset resource (sg_resources s)\<rparr> else s))"

definition apply_movement :: "Worker \<Rightarrow> Coord \<Rightarrow> int \<Rightarrow> int \<Rightarrow> 'a frame \<Rightarrow> error + 'a frame" where
  "apply_movement worker_id worker_position di dj s =
     (let new_position = (fst worker_position + di, snd worker_position + dj);
          s1 = s\<lparr>sg_positions := AList.update (Wrk worker_id) new_position (sg_positions s)\<rparr>
      in if map_of (sg_building_positions s1) new_position = Some Nexus
         then foldE (deposit worker_position) [MINERALS, GAS] s1
         else Inr s1)"

text \<open>
  The condition of the \<open>if\<close> that guards a construction: \<open>building_allowed\<close> with the
  arguments that \<open>state_generator\<close> passes, evaluated in their order.
\<close>

definition attempt_allowed ::
  "data_types \<Rightarrow> (Building, Building option) dict \<Rightarrow> Assignment \<Rightarrow> Building \<Rightarrow> 'a frame
     \<Rightarrow> error + bool" where
  "attempt_allowed dt dependencies assignment bldg s =
     (let insufficient_resources = (cost dt bldg - sg_resources s \<noteq> {#}) in
      case getitem dependencies bldg of
        Inl e \<Rightarrow> Inl e
      | Inr dependency \<Rightarrow>
          (case location assignment of
             Inl e \<Rightarrow> Inl e
           | Inr assignment_location \<Rightarrow>
               building_allowed bldg dependency (map fst (sg_building_positions s))
                 insufficient_resources (sg_positions s) assignment_location))"

definition construct :: "data_types \<Rightarrow> Coord \<Rightarrow> Building \<Rightarrow> 'a frame \<Rightarrow> 'a frame" where
  "construct dt worker_position bldg s =
     s\<lparr>sg_building_positions := AList.update worker_position bldg (sg_building_positions s),
       sg_resources := sg_resources s - cost dt bldg\<rparr>"

definition apply_building ::
  "data_types \<Rightarrow> (Building, Building option) dict \<Rightarrow> Assignment \<Rightarrow> Coord \<Rightarrow> Building
     \<Rightarrow> 'a frame \<Rightarrow> error + 'a frame" where
  "apply_building dt dependencies assignment worker_position bldg s =
     (case attempt_allowed dt dependencies assignment bldg s of
        Inl e \<Rightarrow> Inl e
      | Inr allowed \<Rightarrow> Inr (if allowed then construct dt worker_position bldg s else s))"

definition apply_worker_action ::
  "data_types \<Rightarrow> (Building, Building option) dict \<Rightarrow> Worker \<Rightarrow> Assignment \<Rightarrow> Coord
     \<Rightarrow> WorkerAction \<Rightarrow> 'a frame \<Rightarrow> error + 'a frame" where
  "apply_worker_action dt dependencies worker_id assignment worker_position worker_action s =
     (case worker_action of
        Movement di dj \<Rightarrow> apply_movement worker_id worker_position di dj s
      | Build bldg \<Rightarrow> apply_building dt dependencies assignment worker_position bldg s
      | Unrecognised \<Rightarrow> Inl RuntimeError)"

definition resolve_worker ::
  "data_types \<Rightarrow> (Building, Building option) dict \<Rightarrow> Worker \<times> Assignment \<Rightarrow> 'a frame
     \<Rightarrow> error + 'a frame" where
  "resolve_worker dt dependencies wa s =
     (case getitem (sg_positions s) (Wrk (fst wa)) of
        Inl e \<Rightarrow> Inl e
      | Inr worker_position \<Rightarrow>
          (case assignment_action (snd wa) worker_position (sg_positions s) (sg_nexus_positions s) of
             Inl e \<Rightarrow> Inl e
           | Inr worker_action \<Rightarrow>
               apply_worker_action dt dependencies (fst wa) (snd wa) worker_position
                 worker_action s))"

subsection \<open>\<open>build_dependencies\<close>\<close>

text \<open>
  \<open>np.round\<close> rounds to the nearest integer and a tie to the even one. The draws of
  \<open>self.random.random(n)\<close> are floats in \<open>[0, 1)\<close>; they are rationals here, and the
  product with the index is the exact one. A float product \<open>u * i\<close> is the exact product
  of \<open>i\<close> with some rational of \<open>[0, 1]\<close>, so the properties below, which hold for all
  draws in \<open>[0, 1]\<close>, cover it.
\<close>

definition np_round :: "rat \<Rightarrow> int" where
  "np_round x =
     (let f = \<lfloor>x\<rfloor>; d = x - of_int f
      in if d < 1 / 2 then f else if 1 / 2 < d then f + 1 else if even f then f else f + 1)"

text \<open>
  \<open>itertools.zip_longest\<close> with the fill value \<open>None\<close>, which on the side of the
  dependencies reads as "no dependency". The second list is never the longer one here
  (its length is \<open>min(max_depth, len(buildings))\<close>), so no key is filled in.
\<close>

fun zip_longest :: "'a list \<Rightarrow> 'b option list \<Rightarrow> ('a \<times> 'b option) list" where
  "zip_longest [] ys = []"
| "zip_longest (x # xs) [] = (x, None) # zip_longest xs []"
| "zip_longest (x # xs) (y # ys) = (x, y) # zip_longest xs ys"

fun mapE :: "('x \<Rightarrow> error + 'y) \<Rightarrow> 'x list \<Rightarrow> error + 'y list" where
  "mapE f [] = Inr []"
| "mapE f (x # xs) =
     (case f x of
        Inl e \<Rightarrow> Inl e
      | Inr y \<Rightarrow> (case mapE f xs of Inl e \<Rightarrow> Inl e | Inr ys \<Rightarrow> Inr (y # ys)))"

definition dependency_at :: "Building list \<Rightarrow> int \<Rightarrow> error + Building option" where
  "dependency_at buildings i =
     (if i < 0 then Inr None
      else if nat i < length buildings then Inr (Some (buildings ! nat i))
      else Inl IndexError)"

text \<open>
  \<open>buildings\<close> is the list after \<open>self.random.shuffle\<close>, a permutation of the buildings
  other than the Assimilator; \<open>us\<close> are the \<open>n\<close> draws of \<open>self.random.random(n)\<close>, which
  raises for a negative \<open>n\<close>.
\<close>

definition build_dependencies ::
  "Building list \<Rightarrow> rat list \<Rightarrow> int \<Rightarrow> error + (Building \<times> Building option) list" where
  "build_dependencies buildings us max_depth =
     (let n = min max_depth (int (length buildings)) in
      if n < 0 then Inl ValueError
      else
        let dependencies = map (\<lambda>(u, i). np_round (u * of_nat i) - 1) (zip us [0..<nat n])
        in case mapE (dependency_at buildings) dependencies of
             Inl e \<Rightarrow> Inl e
           | Inr deps \<Rightarrow> Inr ((Assimilator, None) # zip_longest buildings deps))"

text \<open>The dependency that an index stands for, when the index is in range.\<close>

definition dep_val :: "Building list \<Rightarrow> int \<Rightarrow> Building option" where
  "dep_val buildings i = (if i < 0 then None else Some (buildings ! nat i))"

definition shuffled :: "data_types \<Rightarrow> Building list \<Rightarrow> bool" where
  "shuffled dt buildings =
     (mset buildings = mset (filter (\<lambda>b. b \<noteq> Assimilator) (Buildings dt)))"

subsection \<open>\<open>build_lines\<close>\<close>

text \<open>
  \<open>instructions_for\<close> follows the dependencies recursively; \<open>limit\<close> is the interpreter's
  recursion limit, at which Python raises \<open>RecursionError\<close>.
\<close>

fun instructions_for ::
  "nat \<Rightarrow> (Building, Building option) dict \<Rightarrow> Building option \<Rightarrow> error + Building list" where
  "instructions_for 0 deps b = Inl RecursionError"
| "instructions_for (Suc k) deps None = Inr []"
| "instructions_for (Suc k) deps (Some b) =
     (case getitem deps b of
        Inl e \<Rightarrow> Inl e
      | Inr d \<Rightarrow>
          (case instructions_for k deps d of
             Inl e \<Rightarrow> Inl e
           | Inr xs \<Rightarrow> Inr (xs @ [b])))"

definition line :: "bool \<Rightarrow> Building \<Rightarrow> Line" where
  "line r b = \<lparr>required = r, building = b\<rparr>"

text \<open>
  \<open>random_instructions_under\<close>: the \<open>while\<close> loop and the recursive call, both driven by
  the draws of \<open>self.random.choice\<close>. A draw \<open>r\<close> selects the element at \<open>r mod len\<close> of
  the candidates. One draw is used by each turn of the loop; when the draws are used up
  before the budget is, the result is \<open>None\<close>: the loop has not ended.
\<close>

fun random_instructions_under ::
  "nat \<Rightarrow> data_types \<Rightarrow> (Building, Building option) dict \<Rightarrow> int \<Rightarrow> bool \<Rightarrow> nat list
     \<Rightarrow> (error + Line list) option" where
  "random_instructions_under limit dt deps n include_assimilator [] =
     (if n < 0 then Some (Inl RuntimeError) else if n = 0 then Some (Inr []) else None)"
| "random_instructions_under limit dt deps n include_assimilator (r # rs) =
     (if n < 0 then Some (Inl RuntimeError)
      else if n = 0 then Some (Inr [])
      else
        let candidates = filter (\<lambda>b. include_assimilator \<or> b \<noteq> Assimilator) (Buildings dt)
        in if candidates = [] then Some (Inl ValueError)
           else
             let bldg = candidates ! (r mod length candidates)
             in case instructions_for limit deps (Some bldg) of
                  Inl e \<Rightarrow> Some (Inl e)
                | Inr inst \<Rightarrow>
                    if inst = [] then Some (Inl ValueError)
                    else if int (length inst) > n
                    then random_instructions_under limit dt deps n include_assimilator rs
                    else
                      (case random_instructions_under limit dt deps (n - int (length inst))
                              (include_assimilator \<and> bldg \<noteq> Assimilator) rs of
                         None \<Rightarrow> None
                       | Some (Inl e) \<Rightarrow> Some (Inl e)
                       | Some (Inr rest) \<Rightarrow>
                           Some (Inr (map (line False) (butlast inst)
                                      @ [line True (last inst)] @ rest))))"

definition required_assimilators :: "Line list \<Rightarrow> nat" where
  "required_assimilators instructions =
     count_list (map building (filter required instructions)) Assimilator"

text \<open>\<open>n_lines\<close> is the sample of \<open>self.curriculum_setting.n_lines_space\<close>.\<close>

definition build_lines ::
  "nat \<Rightarrow> data_types \<Rightarrow> (Building, Building option) dict \<Rightarrow> int \<Rightarrow> nat list
     \<Rightarrow> (error + Line list) option" where
  "build_lines limit dt deps n_lines draws =
     (case random_instructions_under limit dt deps n_lines True draws of
        None \<Rightarrow> None
      | Some (Inl e) \<Rightarrow> Some (Inl e)
      | Some (Inr instructions) \<Rightarrow>
          if required_assimilators instructions \<le> 1 then Some (Inr instructions)
          else Some (Inl AssertionError))"

text \<open>
  The lists made of whole chains: each chain is all of \<open>instructions_for\<close> of one of the
  buildings, its last element required and the others not.
\<close>

inductive whole_chains ::
  "nat \<Rightarrow> data_types \<Rightarrow> (Building, Building option) dict \<Rightarrow> Line list \<Rightarrow> bool"
  for limit dt deps where
  chains_none: "whole_chains limit dt deps []"
| chains_more:
    "b \<in> set (Buildings dt)
     \<Longrightarrow> instructions_for limit deps (Some b) = Inr inst
     \<Longrightarrow> whole_chains limit dt deps rest
     \<Longrightarrow> whole_chains limit dt deps
           (map (line False) (butlast inst) @ [line True (last inst)] @ rest)"

subsection \<open>\<open>place_objects\<close>\<close>

definition world_space_contains :: "data_types \<Rightarrow> Coord \<Rightarrow> bool" where
  "world_space_contains dt p =
     (0 \<le> fst p \<and> fst p \<le> WORLD_SIZE dt - 1 \<and> 0 \<le> snd p \<and> snd p \<le> WORLD_SIZE dt - 1)"

definition resource_offsets :: "Coord list" where
  "resource_offsets = [(1, 0), (- 1, 0), (0, 1), (0, - 1)]"

definition in_occupied :: "Coord list \<Rightarrow> Coord list \<Rightarrow> bool" where
  "in_occupied occupied initial_pos = list_ex (\<lambda>p. p \<in> set occupied) initial_pos"

definition initial_placement :: "Coord \<Rightarrow> Building \<times> Coord \<Rightarrow> WorldObject \<times> Coord" where
  "initial_placement gas bp = (Bldg (fst bp), if fst bp = Assimilator then gas else snd bp)"

text \<open>
  The draws of \<open>place_objects\<close>: \<open>nexus_draw\<close> for the two coordinates of the Nexus
  (each taken \<open>mod\<close> the world size); \<open>pick\<close> for the two distinct indices of
  \<open>choice(..., size=2, replace=False)\<close>, the second counted among the indices that are
  left; \<open>u\<close> for the Assimilator; \<open>attempts\<close> for the initial positions drawn by
  successive turns of the loop, and \<open>initial_buildings\<close> for the buildings drawn at the
  turn that ends it. When no attempt avoids the occupied tiles the result is \<open>None\<close>:
  the loop has not ended.
\<close>

definition place_objects ::
  "Env \<Rightarrow> data_types \<Rightarrow> nat \<times> nat \<Rightarrow> nat \<times> nat \<Rightarrow> rat \<Rightarrow> Coord list list \<Rightarrow> Building list
     \<Rightarrow> (error + (WorldObject \<times> Coord) list) option" where
  "place_objects env dt nexus_draw pick u attempts initial_buildings =
     (if WORLD_SIZE dt \<le> 0 then Some (Inl ValueError)
      else
        let nexus = (int (fst nexus_draw) mod WORLD_SIZE dt, int (snd nexus_draw) mod WORLD_SIZE dt);
            resource_locations =
              filter (world_space_contains dt)
                (map (\<lambda>d. (fst nexus + fst d, snd nexus + snd d)) resource_offsets);
            k = length resource_locations
        in if k < 2 then Some (Inl ValueError)
           else
             let mi = fst pick mod k;
                 gi = (mi + 1 + snd pick mod (k - 1)) mod k;
                 minerals = resource_locations ! mi;
                 gas = resource_locations ! gi;
                 first = [(Bldg Nexus, nexus)] @ map (\<lambda>w. (Wrk w, nexus)) (Workers dt)
                         @ [(Res MINERALS, minerals), (Res GAS, gas)]
                         @ (if u < assimilator_prob env then [(Bldg Assimilator, gas)] else []);
                 occupied = [nexus, minerals, gas]
             in case find (\<lambda>initial_pos. \<not> in_occupied occupied initial_pos) attempts of
                  None \<Rightarrow> None
                | Some initial_pos \<Rightarrow>
                    Some (Inr (first @ map (initial_placement gas)
                                         (zip initial_buildings initial_pos))))"

subsection \<open>\<open>CompoundAction\<close>\<close>

text \<open>
  \<open>RawAction\<close> is the dataclass of the four fields \<open>delta\<close>, \<open>dg\<close>, \<open>a\<close> and \<open>ptr\<close>.
  \<open>CompoundAction\<close> is defined in \<open>data_types.py\<close>; the environment uses it only
  through the operations below, which are parameters of the model: \<open>ca_initial\<close> is
  \<open>self.compound_action()\<close>, the others are the methods \<open>update\<close>, \<open>is_op\<close>, \<open>worker\<close>,
  \<open>assignment\<close> and the attribute \<open>ptr\<close>.
\<close>

type_synonym RawAction = "int \<times> int \<times> int \<times> int"

record 'a CompoundAction =
  ca_initial :: 'a
  ca_update :: "'a \<Rightarrow> RawAction \<Rightarrow> 'a"
  ca_is_op :: "'a \<Rightarrow> bool"
  ca_worker :: "'a \<Rightarrow> Worker"
  ca_assignment :: "'a \<Rightarrow> Assignment"
  ca_ptr :: "'a \<Rightarrow> int"

subsection \<open>\<open>state_generator\<close>\<close>

text \<open>
  From the top of the \<open>while\<close> loop to the \<open>yield\<close>. \<open>draws\<close> are the values of
  \<open>self.random.random()\<close>, one for each entry of \<open>building_positions\<close> in order.
\<close>

definition destroyed_buildings ::
  "Env \<Rightarrow> rat list \<Rightarrow> (Coord, Building) dict \<Rightarrow> (Coord \<times> Building) list" where
  "destroyed_buildings env draws bps =
     map fst (filter (\<lambda>(cb, r). r < destroy_building_prob env \<and> snd cb \<noteq> Nexus) (zip bps draws))"

definition nexus_positions_of :: "(Coord, Building) dict \<Rightarrow> Coord list" where
  "nexus_positions_of bps = map fst (filter (\<lambda>pb. snd pb = Nexus) bps)"

definition next_action_of :: "Worker \<times> Assignment \<Rightarrow> 'a frame \<Rightarrow> error + 'a frame" where
  "next_action_of wa s =
     (case getitem (sg_positions s) (Wrk (fst wa)) of
        Inl e \<Rightarrow> Inl e
      | Inr p \<Rightarrow>
          (case assignment_action (snd wa) p (sg_positions s)
                  (nexus_positions_of (sg_building_positions s)) of
             Inl e \<Rightarrow> Inl e
           | Inr a \<Rightarrow> Inr (s\<lparr>sg_next_actions := AList.update (fst wa) a (sg_next_actions s)\<rparr>)))"

definition snapshot :: "bool \<Rightarrow> 'a frame \<Rightarrow> 'a State" where
  "snapshot succ s =
     \<lparr>building_positions = sg_building_positions s,
      next_action = sg_next_actions s,
      positions = sg_positions s,
      resources = sg_resources s,
      success = succ,
      pointer = sg_ptr s,
      action = sg_action s,
      time_remaining = sg_time_remaining s\<rparr>"

definition after_destruction ::
  "Env \<Rightarrow> rat list \<Rightarrow> (Coord, Building) dict \<Rightarrow> (Coord, Building) dict" where
  "after_destruction env draws bps =
     (let destroy_coords = map fst (destroyed_buildings env draws bps)
      in fold AList.delete destroy_coords bps)"

definition tick_head :: "Env \<Rightarrow> rat list \<Rightarrow> 'a frame \<Rightarrow> error + ('a frame \<times> 'a State)" where
  "tick_head env draws s =
     (let bps = after_destruction env draws (sg_building_positions s);
          succ = (sg_required s - mset (map snd bps) = {#});
          nexus_positions = nexus_positions_of bps;
          s1 = s\<lparr>sg_building_positions := bps, sg_nexus_positions := nexus_positions\<rparr>
      in if nexus_positions = [] then Inl AssertionError
         else (case foldE next_action_of (sg_assignments s1) s1 of
                 Inl e \<Rightarrow> Inl e
               | Inr s2 \<Rightarrow> Inr (s2, snapshot succ s2)))"

text \<open>
  From the \<open>yield\<close>, resumed with a complete action, to the end of the loop body.
  \<open>sorted\<close> is stable and its key is the truth value of \<open>isinstance(w[1], BuildOrder)\<close>.
\<close>

definition sorted_assignments :: "(Worker, Assignment) dict \<Rightarrow> (Worker \<times> Assignment) list" where
  "sorted_assignments asg =
     filter (\<lambda>wa. \<not> is_BuildOrder (snd wa)) asg @ filter (\<lambda>wa. is_BuildOrder (snd wa)) asg"

definition tick_tail ::
  "'a CompoundAction \<Rightarrow> data_types \<Rightarrow> (Building, Building option) dict \<Rightarrow> 'a \<Rightarrow> 'a frame
     \<Rightarrow> error + 'a frame" where
  "tick_tail ca dt dependencies act s =
     (let s1 = s\<lparr>sg_action := act,
                 sg_ptr := ca_ptr ca act,
                 sg_time_remaining := sg_time_remaining s - 1,
                 sg_assignments :=
                   AList.update (ca_worker ca act) (ca_assignment ca act) (sg_assignments s)\<rparr>
      in foldE (resolve_worker dt dependencies) (sorted_assignments (sg_assignments s1)) s1)"

text \<open>The code before the loop; \<open>placed\<close> is the list \<open>[*self.place_objects()]\<close>.\<close>

definition initial_assignment :: Assignment where
  "initial_assignment = Gather MINERALS"

fun placed_buildings :: "(WorldObject \<times> Coord) list \<Rightarrow> (Coord \<times> Building) list" where
  "placed_buildings [] = []"
| "placed_buildings ((Bldg b, p) # xs) = (p, b) # placed_buildings xs"
| "placed_buildings (x # xs) = placed_buildings xs"

fun placed_others :: "(WorldObject \<times> Coord) list \<Rightarrow> (WorldObject \<times> Coord) list" where
  "placed_others [] = []"
| "placed_others ((Bldg b, p) # xs) = placed_others xs"
| "placed_others (x # xs) = x # placed_others xs"

definition initial_frame ::
  "'a CompoundAction \<Rightarrow> Env \<Rightarrow> data_types \<Rightarrow> Line list \<Rightarrow> (WorldObject \<times> Coord) list
     \<Rightarrow> 'a frame" where
  "initial_frame ca env dt lines placed =
     \<lparr>sg_building_positions = dict_of (placed_buildings placed),
      sg_positions = dict_of (placed_others placed),
      sg_assignments = dict_of (map (\<lambda>w. (w, initial_assignment)) (Workers dt)),
      sg_next_actions = [],
      sg_required = mset (map building (filter required lines)),
      sg_resources = {#},
      sg_ptr = 0,
      sg_action = ca_initial ca,
      sg_time_remaining =
        (if evaluating env then eval_steps env - 1
         else (1 + int (length lines)) * time_per_line env),
      sg_nexus_positions = []\<rparr>"

text \<open>\<open>next(state_iterator)\<close> and \<open>state_iterator.send(action)\<close>.\<close>

definition state_generator_next ::
  "'a CompoundAction \<Rightarrow> Env \<Rightarrow> data_types \<Rightarrow> Line list \<Rightarrow> (WorldObject \<times> Coord) list
     \<Rightarrow> rat list \<Rightarrow> error + ('a frame \<times> 'a State)" where
  "state_generator_next ca env dt lines placed draws =
     tick_head env draws (initial_frame ca env dt lines placed)"

definition state_generator_send ::
  "'a CompoundAction \<Rightarrow> Env \<Rightarrow> data_types \<Rightarrow> (Building, Building option) dict \<Rightarrow> rat list
     \<Rightarrow> 'a \<Rightarrow> 'a frame \<Rightarrow> error + ('a frame \<times> 'a State)" where
  "state_generator_send ca env dt dependencies draws act s =
     (case tick_tail ca dt dependencies act s of
        Inl e \<Rightarrow> Inl e
      | Inr s' \<Rightarrow> tick_head env draws s')"

text \<open>
  The runs of the generator. A value of \<open>self.random.random()\<close> lies in \<open>[0, 1)\<close>.
  \<open>loop_top\<close> holds of the variables each time control is at the top of the \<open>while\<close>
  loop, in an episode whose objects \<open>place_objects\<close> has placed; \<open>later_yield\<close> relates
  a yield of the generator to the yields that follow it.
\<close>

definition unit_draws :: "rat list \<Rightarrow> bool" where
  "unit_draws draws = list_all (\<lambda>r. 0 \<le> r \<and> r < 1) draws"

inductive loop_top ::
  "'a CompoundAction \<Rightarrow> Env \<Rightarrow> data_types \<Rightarrow> (Building, Building option) dict \<Rightarrow> Line list
     \<Rightarrow> 'a frame \<Rightarrow> bool"
  for ca env dt dependencies lines where
  loop_start:
    "place_objects env dt nexus_draw pick u attempts initial_buildings = Some (Inr placed)
     \<Longrightarrow> loop_top ca env dt dependencies lines (initial_frame ca env dt lines placed)"
| loop_again:
    "loop_top ca env dt dependencies lines s0
     \<Longrightarrow> tick_head env draws s0 = Inr (s, st)
     \<Longrightarrow> tick_tail ca dt dependencies act s = Inr s'
     \<Longrightarrow> loop_top ca env dt dependencies lines s'"

inductive later_yield ::
  "'a CompoundAction \<Rightarrow> Env \<Rightarrow> data_types \<Rightarrow> (Building, Building option) dict
     \<Rightarrow> 'a frame \<times> 'a State \<Rightarrow> 'a frame \<times> 'a State \<Rightarrow> bool"
  for ca env dt dependencies y where
  later_same: "later_yield ca env dt dependencies y y"
| later_next:
    "later_yield ca env dt dependencies y (s, st)
     \<Longrightarrow> unit_draws draws
     \<Longrightarrow> state_generator_send ca env dt dependencies draws act s = Inr y'
     \<Longrightarrow> later_yield ca env dt dependencies y y'"

subsection \<open>The generators around the state: done, info, and \<open>srti_generator\<close>\<close>

definition done_generator :: "'a State \<Rightarrow> bool" where
  "done_generator state = (success state \<or> time_remaining state = 0)"

text \<open>
  The keys of the \<open>info\<close> dictionary: plain strings, the formatted key
  \<open>len-<n> success\<close>, and a key followed by the bucket number.
\<close>

datatype info_key = Key string | LenSuccess nat | Bucketed string int

definition float_of_bool :: "bool \<Rightarrow> rat" where
  "float_of_bool b = (if b then 1 else 0)"

definition bucket_entry ::
  "int \<Rightarrow> string \<Rightarrow> (info_key, rat) dict \<Rightarrow> error + (info_key, rat) dict" where
  "bucket_entry bucket k info =
     (case getitem info (Key k) of
        Inl e \<Rightarrow> Inl e
      | Inr v \<Rightarrow> Inr (AList.update (Bucketed k bucket) v info))"

definition info_generator ::
  "Env \<Rightarrow> Line list \<Rightarrow> 'a State \<Rightarrow> bool \<Rightarrow> error + (info_key, rat) dict" where
  "info_generator env lines state done =
     (if \<not> done then Inr []
      else
        let info = dict_of
              [(Key ''success'', float_of_bool (success state)),
               (LenSuccess (length lines), float_of_bool (success state)),
               (Key ''len(instruction)'', of_nat (length lines)),
               (Key ''curriculum+success'', of_int (level env) + float_of_bool (success state))]
        in if \<not> evaluating env then Inr info
           else
             let train_time_success =
                   (if success state then of_int (time_remaining state) else 0);
                 info1 = AList.update (Key ''train_time_success'') train_time_success info
             in if \<not> float_of_bool (success state) \<le> train_time_success
                then Inl AssertionError
                else foldE (bucket_entry (10 * (int (length lines) div 10)))
                       [''success'', ''train_time_success'', ''normalized_elapsed_time'']
                       info1)"

text \<open>
  The state of \<open>srti_generator\<close> at its \<open>yield\<close>: the suspended state generator and the
  variables \<open>state\<close> and \<open>action\<close>. The observation is an encoding of \<open>state\<close> and is not
  modelled; the reward is the constant \<open>-0.1\<close>. \<open>failure_buffer_wrapper\<close> hands the tuple
  through, so what \<open>step\<close> returns is what \<open>srti_generator\<close> yields.
\<close>

record 'a srti =
  state_iterator :: "'a frame"
  state :: "'a State"
  compound :: 'a

text \<open>The top of the loop: the tuple that is yielded, here without the observation.\<close>

definition srti_yield ::
  "Env \<Rightarrow> Line list \<Rightarrow> 'a srti \<Rightarrow> error + (rat \<times> bool \<times> (info_key, rat) dict)" where
  "srti_yield env lines g =
     (let t = done_generator (state g) in
      case info_generator env lines (state g) t of
        Inl e \<Rightarrow> Inl e
      | Inr i \<Rightarrow> Inr (- 1 / 10, t, i))"

text \<open>After the \<open>yield\<close>: the received raw action is folded in, and the state advances.\<close>

definition srti_resume ::
  "'a CompoundAction \<Rightarrow> Env \<Rightarrow> data_types \<Rightarrow> (Building, Building option) dict \<Rightarrow> rat list
     \<Rightarrow> RawAction \<Rightarrow> 'a srti \<Rightarrow> error + 'a srti" where
  "srti_resume ca env dt dependencies draws a g =
     (let act = ca_update ca (compound g) a;
          st = (state g)\<lparr>action := act\<rparr>
      in if ca_is_op ca act then
           (case state_generator_send ca env dt dependencies draws act (state_iterator g) of
              Inl e \<Rightarrow> Inl e
            | Inr (s', st') \<Rightarrow> Inr \<lparr>state_iterator = s', state = st', compound = act\<rparr>)
         else if evaluating env then
           Inr \<lparr>state_iterator = state_iterator g,
                state = st\<lparr>time_remaining := time_remaining st - 1\<rparr>,
                compound = act\<rparr>
         else Inr \<lparr>state_iterator = state_iterator g, state = st, compound = act\<rparr>)"

text \<open>\<open>reset\<close> runs the generator to its first \<open>yield\<close>; \<open>step\<close> resumes it to the next.\<close>

definition reset ::
  "'a CompoundAction \<Rightarrow> Env \<Rightarrow> data_types \<Rightarrow> Line list \<Rightarrow> (WorldObject \<times> Coord) list
     \<Rightarrow> rat list \<Rightarrow> error + ('a srti \<times> rat \<times> bool \<times> (info_key, rat) dict)" where
  "reset ca env dt lines placed draws =
     (case state_generator_next ca env dt lines placed draws of
        Inl e \<Rightarrow> Inl e
      | Inr (s, st) \<Rightarrow>
          (let g = \<lparr>state_iterator = s, state = st, compound = ca_initial ca\<rparr> in
           case srti_yield env lines g of
             Inl e \<Rightarrow> Inl e
           | Inr out \<Rightarrow> Inr (g, out)))"

definition step ::
  "'a CompoundAction \<Rightarrow> Env \<Rightarrow> data_types \<Rightarrow> (Building, Building option) dict \<Rightarrow> Line list
     \<Rightarrow> rat list \<Rightarrow> RawAction \<Rightarrow> 'a srti
     \<Rightarrow> error + ('a srti \<times> rat \<times> bool \<times> (info_key, rat) dict)" where
  "step ca env dt dependencies lines draws a g =
     (case srti_resume ca env dt dependencies draws a g of
        Inl e \<Rightarrow> Inl e
      | Inr g' \<Rightarrow>
          (case srti_yield env lines g' of
             Inl e \<Rightarrow> Inl e
           | Inr out \<Rightarrow> Inr (g', out)))"

text \<open>
  The relation between the variables before and after the resolution of the workers of
  one tick, as far as the invariants below need it: buildings are only added, at new
  coordinates.
\<close>

definition extends :: "'a frame \<Rightarrow> 'a frame \<Rightarrow> bool" where
  "extends s s' =
     (sg_required s' = sg_required s
      \<and> sg_nexus_positions s' = sg_nexus_positions s
      \<and> sg_assignments s' = sg_assignments s
      \<and> (\<exists>ext. sg_building_positions s' = sg_building_positions s @ ext
                \<and> (distinct (map fst (sg_building_positions s))
                     \<longrightarrow> distinct (map fst (sg_building_positions s')))))"

subsection \<open>Concrete data for evaluation\<close>

text \<open>
  A 4 by 4 world: the Nexus at \<open>(1, 1)\<close>, minerals at \<open>(2, 1)\<close>, gas at \<open>(0, 1)\<close>, one
  worker, and one further building class whose cost is one unit of minerals.
\<close>

definition dt0 :: data_types where
  "dt0 = \<lparr>WORLD_SIZE = 4, Buildings = [Assimilator, Nexus, OtherBuilding 0], Workers = [1],
          cost = (\<lambda>b. {#MINERALS#})\<rparr>"

definition deps0 :: "(Building, Building option) dict" where
  "deps0 = [(Assimilator, None), (Nexus, None), (OtherBuilding 0, None)]"

definition deps1 :: "(Building, Building option) dict" where
  "deps1 = [(Assimilator, None), (Nexus, None), (OtherBuilding 0, Some Nexus)]"

definition frame0 ::
  "(Coord, Building) dict \<Rightarrow> Coord \<Rightarrow> Assignment \<Rightarrow> Resource multiset
     \<Rightarrow> RawAction list frame" where
  "frame0 bps worker_position assignment res =
     \<lparr>sg_building_positions = bps,
      sg_positions = [(Wrk 1, worker_position), (Res MINERALS, (2, 1)), (Res GAS, (0, 1))],
      sg_assignments = [(1, assignment)],
      sg_next_actions = [],
      sg_required = {#OtherBuilding 0#},
      sg_resources = res,
      sg_ptr = 0, sg_action = [], sg_time_remaining = 5,
      sg_nexus_positions = [(1, 1)]\<rparr>"

text \<open>
  A compound action of two parts: it is complete when two raw actions have been folded
  in, and the next raw action starts a new one. The field \<open>a\<close> of the first part
  selects the target; the fields \<open>delta\<close> and \<open>dg\<close> of the second are the location of a
  build order.
\<close>

definition ca0 :: "RawAction list CompoundAction" where
  "ca0 = \<lparr>ca_initial = [],
          ca_update = (\<lambda>c a. if length c = 2 then [a] else c @ [a]),
          ca_is_op = (\<lambda>c. length c = 2),
          ca_worker = (\<lambda>c. 1),
          ca_assignment = (\<lambda>c. case c of
              [(d1, g1, a1, p1), (d2, g2, a2, p2)] \<Rightarrow>
                (if a1 = 0 then Gather MINERALS else if a1 = 1 then Gather GAS
                 else BuildOrder (OtherBuilding 0) (d2, g2))
            | _ \<Rightarrow> Gather MINERALS),
          ca_ptr = (\<lambda>c. case c of (d1, g1, a1, p1) # _ \<Rightarrow> p1 | _ \<Rightarrow> 0)\<rparr>"

definition env0 :: "bool \<Rightarrow> Env" where
  "env0 ev = \<lparr>assimilator_prob = 1 / 2, destroy_building_prob = 0, eval_steps = 2,
              num_initial_buildings = 0, time_per_line = 4, evaluating = ev, max_lines = 2,
              max_build_tree_depth = 2, level = 0\<rparr>"

definition lines0 :: "Line list" where
  "lines0 = [line True (OtherBuilding 0)]"

definition placed0 :: "(WorldObject \<times> Coord) list" where
  "placed0 = [(Bldg Nexus, (1, 1)), (Wrk 1, (1, 1)), (Res MINERALS, (2, 1)), (Res GAS, (0, 1))]"

text \<open>
  The state of \<open>srti_generator\<close> after \<open>reset\<close> on this placement, in evaluation mode
  (\<open>eval_steps - 1 = 1\<close> step left) and in training mode (\<open>(1 + 1) * 4 = 8\<close> steps left).
\<close>

definition srti0 :: "bool \<Rightarrow> RawAction list srti" where
  "srti0 ev =
     (let s = (frame0 [((1, 1), Nexus)] (1, 1) (Gather MINERALS) {#})
                \<lparr>sg_next_actions := [(1, Movement 1 0)],
                 sg_time_remaining := (if ev then 1 else 8)\<rparr>
      in \<lparr>state_iterator = s, state = snapshot False s, compound = []\<rparr>)"

text \<open>
  A state in which the required building stands at \<open>(3, 3)\<close>: the yield of the
  generator on it, and the yield that follows when the worker is sent to the minerals.
\<close>

definition frameA :: "RawAction list frame" where
  "frameA = frame0 [((1, 1), Nexus), ((3, 3), OtherBuilding 0)] (1, 1) (Gather MINERALS) {#}"

definition yield0 :: "RawAction list frame \<times> RawAction list State" where
  "yield0 = (let s = frameA\<lparr>sg_next_actions := [(1, Movement 1 0)]\<rparr> in (s, snapshot True s))"

definition yield1 :: "RawAction list frame \<times> RawAction list State" where
  "yield1 =
     (let s = frameA\<lparr>sg_positions := [(Wrk 1, (2, 1)), (Res MINERALS, (2, 1)), (Res GAS, (0, 1))],
                     sg_next_actions := [(1, Movement (- 1) 0)],
                     sg_action := [(0, 0, 0, 0), (0, 0, 0, 0)],
                     sg_time_remaining := 4\<rparr>
      in (s, snapshot True s))"

section \<open>Properties\<close>

subsection \<open>Dictionaries and counters\<close>

lemma getitem_update_other:
  "k \<noteq> k' \<Longrightarrow> getitem (AList.update k v d) k' = getitem d k'"
  by (simp add: getitem_def update_conv')

lemma insufficient_iff: "(c - r \<noteq> {#}) = (\<not> c \<subseteq># r)"
  by (simp add: Diff_eq_empty_iff_mset)

lemma update_fresh: "k \<notin> fst ` set al \<Longrightarrow> AList.update k v al = al @ [(k, v)]"
  by (induction al) auto

subsection \<open>Admission of a building\<close>

text \<open>
  The membership test on the dependency compares it with coordinates and \<open>None\<close>: it
  holds exactly when there is no dependency.
\<close>

lemma py_dependency_in_keys:
  "(py_of_dependency dep \<in> set (map PyCoord bps @ [PyNone])) = (dep = None)"
  by (cases dep) auto

lemma building_allowed_True_iff:
  "building_allowed b dep bps ins ps l = Inr True \<longleftrightarrow>
     \<not> ins \<and> l \<notin> set bps \<and> dep = None \<and>
     (if b = Assimilator then getitem ps (Res GAS) = Inr l
      else \<exists>g m. getitem ps (Res GAS) = Inr g \<and> getitem ps (Res MINERALS) = Inr m
                 \<and> l \<noteq> g \<and> l \<noteq> m)"
  unfolding building_allowed_def py_dependency_in_keys
  by (auto split: sum.splits)

lemma building_allowed_refused:
  assumes "getitem ps (Res GAS) = Inr g" and "getitem ps (Res MINERALS) = Inr m"
    and "ins \<or> l \<in> set bps \<or> dep \<noteq> None \<or> (b = Assimilator \<and> l \<noteq> g)
         \<or> (b \<noteq> Assimilator \<and> (l = g \<or> l = m))"
  shows "building_allowed b dep bps ins ps l = Inr False"
  using assms unfolding building_allowed_def py_dependency_in_keys
  by auto

lemma resolve_worker_build:
  assumes "getitem (sg_positions s) (Wrk w) = Inr l"
  shows "resolve_worker dt deps (w, BuildOrder b l) s = apply_building dt deps (BuildOrder b l) l b s"
  using assms by (simp add: resolve_worker_def apply_worker_action_def)

text \<open>
  Claim C7. A construction attempt that fails an admission condition (resources
  insufficient, target tile occupied, dependency not standing, or the placement rule
  violated) is dropped: resolving the worker returns, without an error, the very state it
  started from, so the buildings, the resources, the worker's position and its assignment
  are as before, and the next tick resolves the same attempt.
\<close>

theorem C7_failed_attempt_dropped:
  assumes "getitem (sg_positions s) (Wrk w) = Inr l"
    and "getitem deps b = Inr dep"
    and "getitem (sg_positions s) (Res GAS) = Inr g"
    and "getitem (sg_positions s) (Res MINERALS) = Inr m"
    and "\<not> cost dt b \<subseteq># sg_resources s
         \<or> l \<in> set (map fst (sg_building_positions s))
         \<or> (\<exists>d. dep = Some d \<and> d \<notin> set (map snd (sg_building_positions s)))
         \<or> (b = Assimilator \<and> l \<noteq> g)
         \<or> (b \<noteq> Assimilator \<and> (l = g \<or> l = m))"
  shows "resolve_worker dt deps (w, BuildOrder b l) s = Inr s"
proof -
  have "building_allowed b dep (map fst (sg_building_positions s))
          (cost dt b - sg_resources s \<noteq> {#}) (sg_positions s) l = Inr False"
    using assms(3-5) by (intro building_allowed_refused) (auto simp: insufficient_iff)
  then show ?thesis
    using assms(1,2) by (simp add: resolve_worker_build apply_building_def attempt_allowed_def)
qed

theorem C7_failed_attempt_dropped_witness:
  "resolve_worker dt0 deps0 (1, BuildOrder (OtherBuilding 0) (3, 3))
       (frame0 [((1, 1), Nexus)] (3, 3) (BuildOrder (OtherBuilding 0) (3, 3)) {#GAS#})
     = Inr (frame0 [((1, 1), Nexus)] (3, 3) (BuildOrder (OtherBuilding 0) (3, 3)) {#GAS#})"
  by (rule C7_failed_attempt_dropped [where dep = None and g = "(0, 1)" and m = "(2, 1)"])
     (simp_all add: frame0_def dt0_def deps0_def getitem_def)

lemma attempt_allowed_iff:
  assumes "getitem deps b = Inr dep"
    and "getitem (sg_positions s) (Res GAS) = Inr g"
    and "getitem (sg_positions s) (Res MINERALS) = Inr m"
  shows "attempt_allowed dt deps (BuildOrder b l) b s =
           Inr (cost dt b \<subseteq># sg_resources s
                \<and> l \<notin> set (map fst (sg_building_positions s))
                \<and> dep = None
                \<and> (if b = Assimilator then l = g else l \<noteq> g \<and> l \<noteq> m))"
  using assms
  by (auto simp: attempt_allowed_def building_allowed_def py_dependency_in_keys insufficient_iff)

lemma build_dependencies_deps1:
  "build_dependencies [Nexus, OtherBuilding 0] [0, 3 / 4] 2 = Inr deps1"
  by code_simp

text \<open>
  Claim C1. The claim lets a building be placed when, among the other conditions, its
  dependency is standing. By \<open>attempt_allowed_iff\<close> the code admits a building only when
  it has no dependency at all. The theorem evaluates the code where every condition of
  the claim holds: \<open>deps1\<close> (a map that \<open>build_dependencies\<close> yields) makes the Nexus the
  dependency of the building, the Nexus stands at \<open>(1, 1)\<close>, the worker stands on the
  free tile \<open>(3, 3)\<close>, which is neither the gas nor the minerals tile, and the resources
  equal the cost. The attempt is refused and the state is unchanged.
\<close>

theorem C1_standing_dependency_refused:
  "cost dt0 (OtherBuilding 0) \<subseteq># {#MINERALS#}
   \<and> map_of [((1, 1), Nexus)] (3::int, 3::int) = None
   \<and> getitem deps1 (OtherBuilding 0) = Inr (Some Nexus)
   \<and> Nexus \<in> set (map snd [((1::int, 1::int), Nexus)])
   \<and> getitem (sg_positions (frame0 [((1, 1), Nexus)] (3, 3)
                  (BuildOrder (OtherBuilding 0) (3, 3)) {#MINERALS#})) (Res GAS) = Inr (0, 1)
   \<and> getitem (sg_positions (frame0 [((1, 1), Nexus)] (3, 3)
                  (BuildOrder (OtherBuilding 0) (3, 3)) {#MINERALS#})) (Res MINERALS) = Inr (2, 1)
   \<and> attempt_allowed dt0 deps1 (BuildOrder (OtherBuilding 0) (3, 3)) (OtherBuilding 0)
        (frame0 [((1, 1), Nexus)] (3, 3) (BuildOrder (OtherBuilding 0) (3, 3)) {#MINERALS#})
      = Inr False
   \<and> resolve_worker dt0 deps1 (1, BuildOrder (OtherBuilding 0) (3, 3))
        (frame0 [((1, 1), Nexus)] (3, 3) (BuildOrder (OtherBuilding 0) (3, 3)) {#MINERALS#})
      = Inr (frame0 [((1, 1), Nexus)] (3, 3) (BuildOrder (OtherBuilding 0) (3, 3)) {#MINERALS#})"
  by (simp add: deps1_def dt0_def frame0_def getitem_def resolve_worker_def
        apply_worker_action_def apply_building_def attempt_allowed_def building_allowed_def)

text \<open>
  Claim C3, as stated, fails: on the gas tile itself an Assimilator is refused when the
  tile already holds a building (here the Assimilator of the initial placement), and
  likewise when the resources do not cover the cost. The worker's resolution then leaves
  the buildings and the resources as they were.
\<close>

theorem C3_counterexample:
  "getitem (sg_positions (frame0 [((1, 1), Nexus), ((0, 1), Assimilator)] (0, 1)
              (BuildOrder Assimilator (0, 1)) {#MINERALS#})) (Res GAS) = Inr (0, 1)
   \<and> cost dt0 Assimilator \<subseteq># {#MINERALS#}
   \<and> attempt_allowed dt0 deps0 (BuildOrder Assimilator (0, 1)) Assimilator
        (frame0 [((1, 1), Nexus), ((0, 1), Assimilator)] (0, 1)
           (BuildOrder Assimilator (0, 1)) {#MINERALS#}) = Inr False
   \<and> resolve_worker dt0 deps0 (1, BuildOrder Assimilator (0, 1))
        (frame0 [((1, 1), Nexus), ((0, 1), Assimilator)] (0, 1)
           (BuildOrder Assimilator (0, 1)) {#MINERALS#})
      = Inr (frame0 [((1, 1), Nexus), ((0, 1), Assimilator)] (0, 1)
               (BuildOrder Assimilator (0, 1)) {#MINERALS#})"
  by (simp add: deps0_def dt0_def frame0_def getitem_def resolve_worker_def
        apply_worker_action_def apply_building_def attempt_allowed_def building_allowed_def)

lemma attempt_allowed_assimilator:
  assumes "getitem deps Assimilator = Inr None"
    and "getitem (sg_positions s) (Res GAS) = Inr g"
  shows "attempt_allowed dt deps (BuildOrder Assimilator l) Assimilator s =
           Inr (cost dt Assimilator \<subseteq># sg_resources s
                \<and> l \<notin> set (map fst (sg_building_positions s)) \<and> l = g)"
  using assms
  by (auto simp: attempt_allowed_def building_allowed_def insufficient_iff)

text \<open>
  Claim C3, amended. The Assimilator has no dependency. When a worker at the tile \<open>l\<close>
  attempts to build one there, the attempt succeeds, which is to say the Assimilator is
  added to the buildings at \<open>l\<close> and the resources are lowered by exactly its cost, if and
  only if the resources cover the cost, no building stands on \<open>l\<close>, and \<open>l\<close> is the gas
  tile; otherwise the state is left as it was. At any tile other than the gas tile the
  attempt fails whatever the resources.
\<close>

theorem C3_assimilator_placement:
  assumes "getitem (sg_positions s) (Wrk w) = Inr l"
    and "getitem deps Assimilator = Inr None"
    and "getitem (sg_positions s) (Res GAS) = Inr g"
  shows "resolve_worker dt deps (w, BuildOrder Assimilator l) s =
           Inr (if cost dt Assimilator \<subseteq># sg_resources s
                   \<and> l \<notin> set (map fst (sg_building_positions s)) \<and> l = g
                then s\<lparr>sg_building_positions := sg_building_positions s @ [(l, Assimilator)],
                       sg_resources := sg_resources s - cost dt Assimilator\<rparr>
                else s)
         \<and> (l \<noteq> g \<longrightarrow> resolve_worker dt deps (w, BuildOrder Assimilator l) s = Inr s)"
proof -
  have run: "resolve_worker dt deps (w, BuildOrder Assimilator l) s =
      Inr (if cost dt Assimilator \<subseteq># sg_resources s
              \<and> l \<notin> set (map fst (sg_building_positions s)) \<and> l = g
           then construct dt l Assimilator s else s)"
    using assms(1) attempt_allowed_assimilator [OF assms(2,3), of dt l]
    by (simp add: resolve_worker_build apply_building_def)
  have "construct dt l Assimilator s =
      s\<lparr>sg_building_positions := sg_building_positions s @ [(l, Assimilator)],
        sg_resources := sg_resources s - cost dt Assimilator\<rparr>"
    if "l \<notin> set (map fst (sg_building_positions s))"
    using that by (simp add: construct_def update_fresh)
  with run show ?thesis by auto
qed

theorem C3_assimilator_placement_witness:
  "resolve_worker dt0 deps0 (1, BuildOrder Assimilator (0, 1))
     (frame0 [((1, 1), Nexus)] (0, 1) (BuildOrder Assimilator (0, 1)) {#MINERALS#})
     = Inr (frame0 [((1, 1), Nexus), ((0, 1), Assimilator)] (0, 1)
              (BuildOrder Assimilator (0, 1)) {#})
   \<and> resolve_worker dt0 deps0 (1, BuildOrder Assimilator (3, 3))
     (frame0 [((1, 1), Nexus)] (3, 3) (BuildOrder Assimilator (3, 3)) {#MINERALS#})
     = Inr (frame0 [((1, 1), Nexus)] (3, 3) (BuildOrder Assimilator (3, 3)) {#MINERALS#})"
  using C3_assimilator_placement
      [where s = "frame0 [((1, 1), Nexus)] (0, 1) (BuildOrder Assimilator (0, 1)) {#MINERALS#}"
         and w = 1 and l = "(0, 1)" and g = "(0, 1)" and deps = deps0 and dt = dt0]
    C3_assimilator_placement
      [where s = "frame0 [((1, 1), Nexus)] (3, 3) (BuildOrder Assimilator (3, 3)) {#MINERALS#}"
         and w = 1 and l = "(3, 3)" and g = "(0, 1)" and deps = deps0 and dt = dt0]
  by (simp add: deps0_def dt0_def frame0_def getitem_def)

subsection \<open>Movement and deposit\<close>

lemma gathered_resource_update_worker:
  "gathered_resource bps (AList.update (Wrk w) p ps) r wp = gathered_resource bps ps r wp"
  by (simp add: gathered_resource_def getitem_update_other)

lemma gathered_resource_total:
  assumes "getitem ps (Res r) = Inr p"
  shows "gathered_resource bps ps r wp
           = Inr (p = wp \<and> (r \<noteq> GAS \<or> map_of bps wp = Some Assimilator))"
  using assms by (simp add: gathered_resource_def)

text \<open>
  Claim C8, as stated, fails in its second half. The deposit does not look at the
  worker's assignment: a worker that is not gathering the resource it stands on still
  delivers it. Here a worker on the minerals tile \<open>(2, 1)\<close> whose assignment is a build
  order at \<open>(0, 3)\<close>, and one whose assignment is to gather gas, step onto the Nexus at
  \<open>(1, 1)\<close>, and the count of minerals goes from 0 to 1.
\<close>

theorem C8_counterexample:
  "assignment_action (BuildOrder (OtherBuilding 0) (0, 3)) (2, 1)
       [(Wrk 1, (2, 1)), (Res MINERALS, (2, 1)), (Res GAS, (0, 1))] [(1, 1)]
     = Inr (Movement (- 1) 0)
   \<and> map_sum id (\<lambda>s'. count (sg_resources s') MINERALS)
        (resolve_worker dt0 deps0 (1, BuildOrder (OtherBuilding 0) (0, 3))
           (frame0 [((1, 1), Nexus)] (2, 1) (BuildOrder (OtherBuilding 0) (0, 3)) {#})) = Inr 1
   \<and> assignment_action (Gather GAS) (2, 1)
       [(Wrk 1, (2, 1)), (Res MINERALS, (2, 1)), (Res GAS, (0, 1))] [(1, 1)]
     = Inr (Movement (- 1) 0)
   \<and> map_sum id (\<lambda>s'. count (sg_resources s') MINERALS)
        (resolve_worker dt0 deps0 (1, Gather GAS)
           (frame0 [((1, 1), Nexus)] (2, 1) (Gather GAS) {#})) = Inr 1"
  by (simp add: frame0_def getitem_def step_toward_def resolve_worker_def
        apply_worker_action_def apply_movement_def deposit_def gathered_resource_def Let_def)

text \<open>
  Claim C8, amended. A worker whose resolved action is a movement moves, and no building
  changes. By its resolution the count of minerals goes up by exactly one when the new
  position holds a Nexus and the minerals lie at the position before the move; the count
  of gas goes up by exactly one when the new position holds a Nexus, the gas lies at the
  position before the move and an Assimilator stands there; in every other case the
  count is unchanged. This holds whatever the assignment that resolved to the movement.
\<close>

theorem C8_movement_deposit:
  assumes "getitem (sg_positions s) (Wrk w) = Inr wp"
    and "assignment_action a wp (sg_positions s) (sg_nexus_positions s) = Inr (Movement di dj)"
    and "getitem (sg_positions s) (Res MINERALS) = Inr pm"
    and "getitem (sg_positions s) (Res GAS) = Inr pg"
  shows "\<exists>s'. resolve_worker dt deps (w, a) s = Inr s'
     \<and> sg_positions s' = AList.update (Wrk w) (fst wp + di, snd wp + dj) (sg_positions s)
     \<and> sg_building_positions s' = sg_building_positions s
     \<and> count (sg_resources s') MINERALS = count (sg_resources s) MINERALS +
          (if map_of (sg_building_positions s) (fst wp + di, snd wp + dj) = Some Nexus
              \<and> pm = wp
           then 1 else 0)
     \<and> count (sg_resources s') GAS = count (sg_resources s) GAS +
          (if map_of (sg_building_positions s) (fst wp + di, snd wp + dj) = Some Nexus
              \<and> pg = wp \<and> map_of (sg_building_positions s) wp = Some Assimilator
           then 1 else 0)"
proof -
  have gm: "\<And>bps p. gathered_resource bps (AList.update (Wrk w) p (sg_positions s)) MINERALS wp
           = Inr (pm = wp)"
    using assms(3) by (simp add: gathered_resource_update_worker gathered_resource_total)
  have gg: "\<And>bps p. gathered_resource bps (AList.update (Wrk w) p (sg_positions s)) GAS wp
           = Inr (pg = wp \<and> map_of bps wp = Some Assimilator)"
    using assms(4) by (simp add: gathered_resource_update_worker gathered_resource_total)
  show ?thesis
    using assms(1,2)
    by (simp add: resolve_worker_def apply_worker_action_def apply_movement_def deposit_def
          gm gg Let_def)
qed

theorem C8_movement_deposit_witness:
  "\<exists>s'. resolve_worker dt0 deps0 (1, Gather MINERALS)
           (frame0 [((1, 1), Nexus)] (2, 1) (Gather MINERALS) {#}) = Inr s'
     \<and> sg_positions s' = [(Wrk 1, (1, 1)), (Res MINERALS, (2, 1)), (Res GAS, (0, 1))]
     \<and> count (sg_resources s') MINERALS = 1 \<and> count (sg_resources s') GAS = 0"
  using C8_movement_deposit [of "frame0 [((1, 1), Nexus)] (2, 1) (Gather MINERALS) {#}" 1 "(2, 1)"
      "Gather MINERALS" "- 1" 0 "(2, 1)" "(0, 1)" dt0 deps0]
  by (auto simp add: frame0_def getitem_def step_toward_def)

subsection \<open>Incomplete actions\<close>

lemma place_objects_placed0:
  "place_objects (env0 True) dt0 (1, 1) (0, 0) (3 / 4) [[]] [] = Some (Inr placed0)"
  by code_simp

lemma reset_srti0_eval:
  "reset ca0 (env0 True) dt0 lines0 placed0 [1 / 2] = Inr (srti0 True, - 1 / 10, False, [])"
  by code_simp

lemma reset_srti0_train:
  "reset ca0 (env0 False) dt0 lines0 placed0 [1 / 2] = Inr (srti0 False, - 1 / 10, False, [])"
  by code_simp

text \<open>
  Claim C2, as stated, fails in evaluation mode: an incomplete action leaves the state
  generator alone, but the branch \<open>elif self.evaluating\<close> takes one step off
  \<open>time_remaining\<close>. Here the first of the two parts of an action is sent to an
  evaluation episode just after its \<open>reset\<close>, with 1 step left, and 0 are left after it.
\<close>

theorem C2_counterexample:
  "\<not> ca_is_op ca0 (ca_update ca0 (compound (srti0 True)) (0, 0, 0, 0))
   \<and> time_remaining (state (srti0 True)) = 1
   \<and> map_sum id (\<lambda>g. time_remaining (state g))
        (srti_resume ca0 (env0 True) dt0 deps0 [1 / 2] (0, 0, 0, 0) (srti0 True)) = Inr 0"
  by code_simp

text \<open>
  Claim C2, amended. A raw action that leaves the compound action incomplete does not
  resume the state generator: its variables, and the buildings and the resources of the
  state, are unchanged, and no error is raised. In training mode \<open>time_remaining\<close> is
  unchanged too; in evaluation mode it is one less.
\<close>

theorem C2_partial_action:
  assumes "\<not> ca_is_op ca (ca_update ca (compound g) a)"
  shows "\<exists>g'. srti_resume ca env dt deps draws a g = Inr g'
      \<and> state_iterator g' = state_iterator g
      \<and> building_positions (state g') = building_positions (state g)
      \<and> resources (state g') = resources (state g)
      \<and> time_remaining (state g') =
          (if evaluating env then time_remaining (state g) - 1 else time_remaining (state g))"
  using assms by (simp add: srti_resume_def Let_def)

theorem C2_partial_action_witness:
  "\<exists>g'. srti_resume ca0 (env0 False) dt0 deps0 [1 / 2] (0, 0, 0, 0) (srti0 False) = Inr g'
      \<and> state_iterator g' = state_iterator (srti0 False)
      \<and> building_positions (state g') = [((1, 1), Nexus)]
      \<and> resources (state g') = {#}
      \<and> time_remaining (state g') = 8"
  using C2_partial_action [of ca0 "srti0 False" "(0, 0, 0, 0)" "env0 False" dt0 deps0 "[1 / 2]"]
  by (simp add: ca0_def srti0_def env0_def snapshot_def frame0_def Let_def)

subsection \<open>The done flag\<close>

lemma srti_yield_training:
  assumes "\<not> evaluating env"
  shows "\<exists>i. srti_yield env lines g = Inr (- 1 / 10, done_generator (state g), i)"
  using assms by (simp add: srti_yield_def info_generator_def Let_def)

text \<open>
  In training mode the tuple is yielded, and while \<open>success\<close> is false its done flag is
  true exactly when \<open>time_remaining\<close> is 0.
\<close>

lemma done_flag_training:
  assumes "\<not> evaluating env" and "\<not> success (state g)"
  shows "\<exists>i. srti_yield env lines g = Inr (- 1 / 10, time_remaining (state g) = 0, i)"
  using assms by (simp add: srti_yield_def info_generator_def done_generator_def Let_def)

text \<open>
  In evaluation mode \<open>info_generator\<close> copies the entry of the key
  \<open>normalized_elapsed_time\<close>, which nothing has set: once the done flag is true the
  generator raises instead of yielding.
\<close>

lemma srti_yield_evaluating_done:
  assumes "evaluating env" and "done_generator (state g)"
  shows "srti_yield env lines g = Inl KeyError \<or> srti_yield env lines g = Inl AssertionError"
  using assms
  by (simp add: srti_yield_def info_generator_def Let_def dict_of_def bucket_entry_def
        getitem_def float_of_bool_def)

lemma srti_yield_evaluating_timeout:
  assumes "evaluating env" and "\<not> success (state g)" and "time_remaining (state g) = 0"
  shows "srti_yield env lines g = Inl KeyError"
  using assms
  by (simp add: srti_yield_def info_generator_def Let_def dict_of_def bucket_entry_def
        getitem_def float_of_bool_def done_generator_def)

text \<open>
  Claim C9. The claim holds in training mode (\<open>done_flag_training\<close>). In evaluation mode
  the step at which \<open>time_remaining\<close> reaches 0 returns no done flag: it raises
  \<open>KeyError\<close> (\<open>srti_yield_evaluating_timeout\<close>). The theorem evaluates such a step: an
  evaluation episode with \<open>eval_steps = 2\<close> has one step left after \<open>reset\<close>, no required
  building can be completed, and the next \<open>step\<close> raises.
\<close>

theorem C9_evaluation_done_raises:
  "time_remaining (state (srti0 True)) = 1
   \<and> \<not> success (state (srti0 True))
   \<and> step ca0 (env0 True) dt0 deps0 lines0 [1 / 2] (0, 0, 0, 0) (srti0 True) = Inl KeyError"
  by code_simp

subsection \<open>Buildings are only added\<close>

lemma foldE_rel:
  assumes step: "\<And>x s s'. f x s = Inr s' \<Longrightarrow> R s s'"
    and refl: "\<And>s. R s s"
    and trans: "\<And>a b c. R a b \<Longrightarrow> R b c \<Longrightarrow> R a c"
  shows "foldE f xs s = Inr s' \<Longrightarrow> R s s'"
proof (induction xs arbitrary: s)
  case Nil
  then show ?case using refl by simp
next
  case (Cons x xs)
  from Cons.prems obtain s1 where s1: "f x s = Inr s1" and rest: "foldE f xs s1 = Inr s'"
    by (auto split: sum.splits)
  have "R s s1" using step s1 by blast
  moreover have "R s1 s'" using Cons.IH [OF rest] .
  ultimately show ?case using trans by blast
qed

lemma extends_refl: "extends s s"
  by (simp add: extends_def)

lemma extends_trans: "extends a b \<Longrightarrow> extends b c \<Longrightarrow> extends a c"
  by (auto simp: extends_def)

lemma deposit_extends: "deposit wp r s = Inr s' \<Longrightarrow> extends s s'"
  by (auto simp: deposit_def extends_def split: sum.splits if_splits)

lemma apply_movement_extends: "apply_movement w wp di dj s = Inr s' \<Longrightarrow> extends s s'"
proof -
  assume a: "apply_movement w wp di dj s = Inr s'"
  let ?s1 = "s\<lparr>sg_positions := AList.update (Wrk w) (fst wp + di, snd wp + dj) (sg_positions s)\<rparr>"
  have e1: "extends s ?s1" by (simp add: extends_def)
  have "extends ?s1 s'"
  proof (cases "map_of (sg_building_positions s) (fst wp + di, snd wp + dj) = Some Nexus")
    case True
    then have "foldE (deposit wp) [MINERALS, GAS] ?s1 = Inr s'"
      using a by (simp add: apply_movement_def Let_def)
    then show ?thesis
      by (rule foldE_rel [rotated 3]) (auto intro: deposit_extends extends_refl elim: extends_trans)
  next
    case False
    then show ?thesis using a by (simp add: apply_movement_def Let_def extends_refl)
  qed
  with e1 show ?thesis by (rule extends_trans)
qed

lemma assignment_action_Build:
  "assignment_action a wp ps nx = Inr (Build b) \<Longrightarrow> a = BuildOrder b wp"
  by (cases a) (auto simp: step_toward_def split: sum.splits if_splits)

lemma attempt_allowed_fresh:
  "attempt_allowed dt deps (BuildOrder b l) b' s = Inr True
     \<Longrightarrow> l \<notin> fst ` set (sg_building_positions s)"
  by (auto simp: attempt_allowed_def building_allowed_def split: sum.splits if_splits)

lemma apply_building_extends:
  "apply_building dt deps (BuildOrder b l) l b s = Inr s' \<Longrightarrow> extends s s'"
  by (auto simp: apply_building_def construct_def extends_def update_fresh
        dest!: attempt_allowed_fresh split: sum.splits if_splits)

lemma resolve_worker_extends: "resolve_worker dt deps wa s = Inr s' \<Longrightarrow> extends s s'"
proof -
  assume a: "resolve_worker dt deps wa s = Inr s'"
  then obtain wp act where wp: "getitem (sg_positions s) (Wrk (fst wa)) = Inr wp"
    and act: "assignment_action (snd wa) wp (sg_positions s) (sg_nexus_positions s) = Inr act"
    and ap: "apply_worker_action dt deps (fst wa) (snd wa) wp act s = Inr s'"
    by (auto simp: resolve_worker_def split: sum.splits)
  show ?thesis
  proof (cases act)
    case (Movement di dj)
    then show ?thesis using ap by (auto simp: apply_worker_action_def intro: apply_movement_extends)
  next
    case (Build b)
    then have "snd wa = BuildOrder b wp" using act by (auto dest: assignment_action_Build)
    then show ?thesis using ap Build
      by (auto simp: apply_worker_action_def intro: apply_building_extends)
  next
    case Unrecognised
    then show ?thesis using ap by (simp add: apply_worker_action_def)
  qed
qed

lemma tick_tail_extends:
  assumes "tick_tail ca dt deps act s = Inr s'"
  shows "sg_required s' = sg_required s"
    and "\<exists>ext. sg_building_positions s' = sg_building_positions s @ ext"
    and "distinct (map fst (sg_building_positions s)) \<Longrightarrow> distinct (map fst (sg_building_positions s'))"
proof -
  let ?s1 = "s\<lparr>sg_action := act, sg_ptr := ca_ptr ca act,
               sg_time_remaining := sg_time_remaining s - 1,
               sg_assignments :=
                 AList.update (ca_worker ca act) (ca_assignment ca act) (sg_assignments s)\<rparr>"
  have "foldE (resolve_worker dt deps) (sorted_assignments (sg_assignments ?s1)) ?s1 = Inr s'"
    using assms by (simp add: tick_tail_def Let_def)
  then have "extends ?s1 s'"
    by (rule foldE_rel [rotated 3]) (auto intro: resolve_worker_extends extends_refl elim: extends_trans)
  then show "sg_required s' = sg_required s"
    and "\<exists>ext. sg_building_positions s' = sg_building_positions s @ ext"
    and "distinct (map fst (sg_building_positions s)) \<Longrightarrow> distinct (map fst (sg_building_positions s'))"
    by (auto simp: extends_def)
qed

subsection \<open>The top of the loop\<close>

lemma next_action_of_frame:
  "next_action_of wa s = Inr s' \<Longrightarrow> \<exists>na. s' = s\<lparr>sg_next_actions := na\<rparr>"
  by (auto simp: next_action_of_def split: sum.splits)

lemma foldE_next_action_of_frame:
  assumes "foldE next_action_of xs s = Inr s'"
  shows "\<exists>na. s' = s\<lparr>sg_next_actions := na\<rparr>"
  using assms
proof (rule foldE_rel [rotated 3])
  fix x :: "Worker \<times> Assignment" and a b :: "'a frame"
  assume "next_action_of x a = Inr b"
  then show "\<exists>na. b = a\<lparr>sg_next_actions := na\<rparr>" by (rule next_action_of_frame)
next
  fix a :: "'a frame"
  have "a = a\<lparr>sg_next_actions := sg_next_actions a\<rparr>" by simp
  then show "\<exists>na. a = a\<lparr>sg_next_actions := na\<rparr>" by blast
next
  fix a b c :: "'a frame"
  assume "\<exists>na. b = a\<lparr>sg_next_actions := na\<rparr>" and "\<exists>na. c = b\<lparr>sg_next_actions := na\<rparr>"
  then show "\<exists>na. c = a\<lparr>sg_next_actions := na\<rparr>" by auto
qed

lemma tick_head_yield:
  assumes "tick_head env draws s = Inr (s2, st)"
  shows "sg_building_positions s2 = after_destruction env draws (sg_building_positions s)"
    and "sg_required s2 = sg_required s"
    and "sg_nexus_positions s2 = nexus_positions_of (sg_building_positions s2)"
    and "nexus_positions_of (sg_building_positions s2) \<noteq> []"
    and "st = snapshot (sg_required s2 - mset (map snd (sg_building_positions s2)) = {#}) s2"
proof -
  let ?bps = "after_destruction env draws (sg_building_positions s)"
  let ?s1 = "s\<lparr>sg_building_positions := ?bps, sg_nexus_positions := nexus_positions_of ?bps\<rparr>"
  from assms have ne: "nexus_positions_of ?bps \<noteq> []"
    and f: "foldE next_action_of (sg_assignments ?s1) ?s1 = Inr s2"
    and st: "st = snapshot (sg_required s - mset (map snd ?bps) = {#}) s2"
    by (auto simp: tick_head_def Let_def split: if_splits sum.splits)
  from foldE_next_action_of_frame [OF f] obtain na where s2: "s2 = ?s1\<lparr>sg_next_actions := na\<rparr>"
    by blast
  show "sg_building_positions s2 = ?bps" using s2 by simp
  show "sg_required s2 = sg_required s" using s2 by simp
  show "sg_nexus_positions s2 = nexus_positions_of (sg_building_positions s2)" using s2 by simp
  show "nexus_positions_of (sg_building_positions s2) \<noteq> []" using s2 ne by simp
  show "st = snapshot (sg_required s2 - mset (map snd (sg_building_positions s2)) = {#}) s2"
    using s2 st by simp
qed

lemma no_destruction:
  assumes "destroy_building_prob env = 0" and "unit_draws draws"
  shows "after_destruction env draws bps = bps"
proof -
  have "\<And>x. x \<in> set (zip bps draws) \<Longrightarrow> \<not> snd x < 0"
    using assms(2) by (auto simp: unit_draws_def list_all_iff dest!: set_zip_rightD)
  then have "filter (\<lambda>(cb, r). r < destroy_building_prob env \<and> snd cb \<noteq> Nexus) (zip bps draws) = []"
    using assms(1) by (auto simp: filter_empty_conv)
  then show ?thesis
    by (simp add: after_destruction_def destroyed_buildings_def)
qed

lemma fold_delete_keeps:
  "k \<notin> set ks \<Longrightarrow> (k, v) \<in> set al \<Longrightarrow> (k, v) \<in> set (fold AList.delete ks al)"
  by (induction ks arbitrary: al) (auto simp: AList.delete_eq)

lemma fold_delete_distinct:
  "distinct (map fst al) \<Longrightarrow> distinct (map fst (fold AList.delete ks al))"
  by (induction ks arbitrary: al) (auto simp: distinct_delete)

lemma destruction_keeps_nexus:
  assumes "distinct (map fst bps)" and "(c, Nexus) \<in> set bps"
  shows "(c, Nexus) \<in> set (after_destruction env draws bps)"
proof -
  have "c \<notin> set (map fst (destroyed_buildings env draws bps))"
  proof
    assume "c \<in> set (map fst (destroyed_buildings env draws bps))"
    then obtain b where "(c, b) \<in> set bps" and "b \<noteq> Nexus"
      by (auto simp: destroyed_buildings_def dest!: set_zip_leftD)
    with assms show False
      by (meson eq_key_imp_eq_value)
  qed
  then show ?thesis using assms(2)
    by (simp add: after_destruction_def Let_def fold_delete_keeps)
qed

lemma destruction_distinct:
  "distinct (map fst bps) \<Longrightarrow> distinct (map fst (after_destruction env draws bps))"
  by (simp add: after_destruction_def Let_def fold_delete_distinct)

lemma nexus_positions_of_nonempty:
  "(c, Nexus) \<in> set bps \<Longrightarrow> nexus_positions_of bps \<noteq> []"
  by (force simp: nexus_positions_of_def filter_empty_conv)

lemma nexus_positions_of_member:
  "nexus_positions_of bps \<noteq> [] \<Longrightarrow> Nexus \<in> snd ` set bps"
  by (force simp: nexus_positions_of_def filter_empty_conv)

subsection \<open>Success without destruction\<close>

lemma send_without_destruction:
  assumes p0: "destroy_building_prob env = 0" and ud: "unit_draws draws"
    and send: "state_generator_send ca env dt deps draws act s = Inr (s', st')"
  shows "sg_required s' = sg_required s"
    and "mset (map snd (sg_building_positions s)) \<subseteq># mset (map snd (sg_building_positions s'))"
    and "st' = snapshot (sg_required s' - mset (map snd (sg_building_positions s')) = {#}) s'"
proof -
  from send obtain s1 where tail: "tick_tail ca dt deps act s = Inr s1"
    and head: "tick_head env draws s1 = Inr (s', st')"
    by (auto simp: state_generator_send_def split: sum.splits)
  from tick_tail_extends(2) [OF tail] obtain ext
    where ext: "sg_building_positions s1 = sg_building_positions s @ ext" by blast
  have bps: "sg_building_positions s' = sg_building_positions s1"
    using tick_head_yield(1) [OF head] no_destruction [OF p0 ud] by simp
  show "sg_required s' = sg_required s"
    using tick_head_yield(2) [OF head] tick_tail_extends(1) [OF tail] by simp
  show "mset (map snd (sg_building_positions s)) \<subseteq># mset (map snd (sg_building_positions s'))"
    by (simp add: bps ext)
  show "st' = snapshot (sg_required s' - mset (map snd (sg_building_positions s')) = {#}) s'"
    using head by (rule tick_head_yield(5))
qed

lemma tick_head_yield0: "tick_head (env0 False) [1 / 2, 1 / 2] frameA = Inr yield0"
  by code_simp

lemma send_yield1:
  "state_generator_send ca0 (env0 False) dt0 deps0 [1 / 2, 1 / 2]
     [(0, 0, 0, 0), (0, 0, 0, 0)] (fst yield0) = Inr yield1"
  by code_simp

text \<open>
  Claim C6. Let \<open>destroy_building_prob\<close> be 0. When the state that the generator yields
  has its success flag set, every state it yields later in the episode has it set as
  well, and the multiset of standing buildings only grows: no building is removed.
\<close>

theorem C6_success_monotone:
  assumes p0: "destroy_building_prob env = 0"
    and yield: "tick_head env draws0 s0 = Inr y"
    and succ: "success (snd y)"
    and later: "later_yield ca env dt deps y y'"
  shows "success (snd y')
         \<and> mset (map snd (building_positions (snd y)))
             \<subseteq># mset (map snd (building_positions (snd y')))"
proof -
  let ?vals = "\<lambda>z :: 'a frame \<times> 'a State. mset (map snd (sg_building_positions (fst z)))"
  let ?ok = "\<lambda>z :: 'a frame \<times> 'a State.
      snd z = snapshot (sg_required (fst z) - ?vals z = {#}) (fst z)"
  have y_ok: "?ok y"
    using tick_head_yield(5) [of env draws0 s0 "fst y" "snd y"] yield by simp
  from later have inv: "?ok y' \<and> sg_required (fst y') = sg_required (fst y) \<and> ?vals y \<subseteq># ?vals y'"
  proof (induction rule: later_yield.induct)
    case later_same
    then show ?case using y_ok by simp
  next
    case (later_next s st draws act y')
    obtain s' st' where y': "y' = (s', st')" by (cases y')
    note send = send_without_destruction [OF p0 later_next.hyps(2) later_next.hyps(3) [unfolded y']]
    have "?vals y \<subseteq># mset (map snd (sg_building_positions s))"
      using later_next.IH by simp
    then have "?vals y \<subseteq># ?vals y'"
      using send(2) by (simp add: y')
    moreover have "sg_required (fst y') = sg_required (fst y)"
      using send(1) later_next.IH by (simp add: y')
    moreover have "?ok y'"
      using send(3) by (simp add: y')
    ultimately show ?case by blast
  qed
  have s_y: "success (snd y) = (sg_required (fst y) \<subseteq># ?vals y)"
    using y_ok by (simp add: snapshot_def Diff_eq_empty_iff_mset)
  have s_y': "success (snd y') = (sg_required (fst y') \<subseteq># ?vals y')"
    using inv by (simp add: snapshot_def Diff_eq_empty_iff_mset)
  have b_y: "building_positions (snd y) = sg_building_positions (fst y)"
    using y_ok by (simp add: snapshot_def)
  have b_y': "building_positions (snd y') = sg_building_positions (fst y')"
    using inv by (simp add: snapshot_def)
  have "sg_required (fst y') \<subseteq># ?vals y'"
    using succ s_y inv by (auto intro: subset_mset.order_trans)
  then show ?thesis
    using s_y' b_y b_y' inv by simp
qed

theorem C6_success_monotone_witness:
  "success (snd yield1)
   \<and> mset (map snd (building_positions (snd yield0)))
       \<subseteq># mset (map snd (building_positions (snd yield1)))"
proof -
  have p0: "destroy_building_prob (env0 False) = 0" by (simp add: env0_def)
  have s0: "success (snd yield0)" by (simp add: yield0_def snapshot_def Let_def)
  have ud: "unit_draws [1 / 2, 1 / 2]" by (simp add: unit_draws_def)
  have "later_yield ca0 (env0 False) dt0 deps0 yield0 yield1"
    by (rule later_next [where s = "fst yield0" and st = "snd yield0", OF _ ud send_yield1])
       (simp add: later_same)
  with C6_success_monotone [OF p0 tick_head_yield0 s0] show ?thesis by blast
qed

subsection \<open>A Nexus always stands\<close>

lemma foldl_update_distinct:
  "distinct (map fst d)
     \<Longrightarrow> distinct (map fst (foldl (\<lambda>d kv. AList.update (fst kv) (snd kv) d) d kvs))"
  by (induction kvs arbitrary: d) (auto simp: distinct_update)

lemma dict_of_distinct: "distinct (map fst (dict_of kvs))"
  by (simp add: dict_of_def foldl_update_distinct)

lemma map_of_foldl_update:
  "map_of (foldl (\<lambda>d kv. AList.update (fst kv) (snd kv) d) d kvs) = map_of d ++ map_of (rev kvs)"
proof (induction kvs arbitrary: d)
  case Nil
  then show ?case by simp
next
  case (Cons kv kvs)
  have "map_of (AList.update (fst kv) (snd kv) d) ++ map_of (rev kvs)
          = map_of d ++ (map_of (rev kvs @ [kv]))"
    by (cases kv) (auto simp: update_conv' map_add_def fun_eq_iff split: option.splits)
  then show ?case using Cons by simp
qed

lemma dict_of_first:
  assumes "k \<notin> fst ` set rest"
  shows "(k, v) \<in> set (dict_of ((k, v) # rest))"
proof -
  have "map_of (rev rest) k = None"
    using assms by (simp add: map_of_eq_None_iff)
  then have "map_of (dict_of ((k, v) # rest)) k = Some v"
    by (simp add: dict_of_def map_of_foldl_update map_add_def)
  then show ?thesis by (rule map_of_SomeD)
qed

lemma placed_buildings_append:
  "placed_buildings (xs @ ys) = placed_buildings xs @ placed_buildings ys"
  by (induction xs rule: placed_buildings.induct) auto

lemma placed_buildings_workers: "placed_buildings (map (\<lambda>w. (Wrk w, p)) ws) = []"
  by (induction ws) auto

lemma placed_buildings_initial:
  "placed_buildings (map (initial_placement gas) zs)
     = map (\<lambda>bp. (if fst bp = Assimilator then gas else snd bp, fst bp)) zs"
  by (induction zs) (auto simp: initial_placement_def)

lemma place_objects_buildings:
  assumes "place_objects env dt nexus_draw pick u attempts initial_buildings = Some (Inr placed)"
  shows "\<exists>c rest. placed_buildings placed = (c, Nexus) # rest \<and> c \<notin> fst ` set rest"
proof -
  define nexus where
    "nexus = (int (fst nexus_draw) mod WORLD_SIZE dt, int (snd nexus_draw) mod WORLD_SIZE dt)"
  define locs where
    "locs = filter (world_space_contains dt)
              (map (\<lambda>d. (fst nexus + fst d, snd nexus + snd d)) resource_offsets)"
  define k where "k = length locs"
  define mi where "mi = fst pick mod k"
  define gi where "gi = (mi + 1 + snd pick mod (k - 1)) mod k"
  define gas where "gas = locs ! gi"
  define asm where
    "asm = (if u < assimilator_prob env then [(Bldg Assimilator, gas)] else [])"
  define first where
    "first = [(Bldg Nexus, nexus)] @ map (\<lambda>w. (Wrk w, nexus)) (Workers dt)
               @ [(Res MINERALS, locs ! mi), (Res GAS, gas)] @ asm"
  have unfolded: "place_objects env dt nexus_draw pick u attempts initial_buildings =
     (if WORLD_SIZE dt \<le> 0 then Some (Inl ValueError)
      else if k < 2 then Some (Inl ValueError)
      else case find (\<lambda>initial_pos. \<not> in_occupied [nexus, locs ! mi, gas] initial_pos) attempts of
             None \<Rightarrow> None
           | Some initial_pos \<Rightarrow>
               Some (Inr (first @ map (initial_placement gas)
                                    (zip initial_buildings initial_pos))))"
    unfolding place_objects_def Let_def first_def asm_def gas_def gi_def mi_def k_def locs_def
      nexus_def ..
  from assms have k2: "\<not> k < 2"
    unfolding unfolded by (simp split: if_splits)
  from assms obtain initial_pos where
    found: "find (\<lambda>initial_pos. \<not> in_occupied [nexus, locs ! mi, gas] initial_pos) attempts
              = Some initial_pos"
    and placed: "placed = first @ map (initial_placement gas) (zip initial_buildings initial_pos)"
    unfolding unfolded by (simp split: if_splits option.splits)
  have "0 < k" using k2 by simp
  then have "gi < k" unfolding gi_def by (rule mod_less_divisor)
  then have "gas \<in> set locs" by (simp add: gas_def k_def)
  then have "gas \<in> set (map (\<lambda>d. (fst nexus + fst d, snd nexus + snd d)) resource_offsets)"
    by (simp add: locs_def)
  then have gas_ne: "gas \<noteq> nexus"
    by (cases nexus) (auto simp: resource_offsets_def)
  from found have "\<not> in_occupied [nexus, locs ! mi, gas] initial_pos"
    by (auto simp: find_Some_iff)
  then have pos_ne: "nexus \<notin> set initial_pos"
    by (auto simp: in_occupied_def list_ex_iff)
  define rest where
    "rest = placed_buildings asm
       @ map (\<lambda>bp. (if fst bp = Assimilator then gas else snd bp, fst bp))
           (zip initial_buildings initial_pos)"
  have pb: "placed_buildings placed = (nexus, Nexus) # rest"
    by (simp add: placed first_def rest_def placed_buildings_append placed_buildings_workers
          placed_buildings_initial)
  have "nexus \<notin> fst ` set (placed_buildings asm)"
    using gas_ne by (auto simp: asm_def)
  moreover have "nexus \<notin> fst ` set (map (\<lambda>bp. (if fst bp = Assimilator then gas else snd bp, fst bp))
                                      (zip initial_buildings initial_pos))"
  proof
    assume "nexus \<in> fst ` set (map (\<lambda>bp. (if fst bp = Assimilator then gas else snd bp, fst bp))
                                   (zip initial_buildings initial_pos))"
    then obtain bp where bp: "bp \<in> set (zip initial_buildings initial_pos)"
      and eq: "nexus = (if fst bp = Assimilator then gas else snd bp)"
      by auto
    have "snd bp \<in> set initial_pos"
      using bp set_zip_rightD [of "fst bp" "snd bp" initial_buildings initial_pos] by simp
    with eq gas_ne pos_ne show False
      by (cases "fst bp = Assimilator") auto
  qed
  ultimately have "nexus \<notin> fst ` set rest"
    by (auto simp: rest_def)
  with pb show ?thesis by blast
qed

lemma initial_frame_nexus:
  assumes "place_objects env dt nexus_draw pick u attempts initial_buildings = Some (Inr placed)"
  shows "distinct (map fst (sg_building_positions (initial_frame ca env dt lines placed)))"
    and "\<exists>c. (c, Nexus) \<in> set (sg_building_positions (initial_frame ca env dt lines placed))"
proof -
  show "distinct (map fst (sg_building_positions (initial_frame ca env dt lines placed)))"
    by (simp add: initial_frame_def dict_of_distinct)
  from place_objects_buildings [OF assms] obtain c rest
    where "placed_buildings placed = (c, Nexus) # rest" and "c \<notin> fst ` set rest"
    by blast
  then have "(c, Nexus) \<in> set (dict_of (placed_buildings placed))"
    by (simp add: dict_of_first)
  then show "\<exists>c. (c, Nexus) \<in> set (sg_building_positions (initial_frame ca env dt lines placed))"
    by (intro exI [of _ c]) (simp add: initial_frame_def)
qed

lemma loop_top_invariant:
  assumes "loop_top ca env dt deps lines s0"
  shows "distinct (map fst (sg_building_positions s0))
         \<and> (\<exists>c. (c, Nexus) \<in> set (sg_building_positions s0))"
  using assms
proof (induction rule: loop_top.induct)
  case (loop_start nexus_draw pick u attempts initial_buildings placed)
  from initial_frame_nexus(1) [OF loop_start.hyps, where ca = ca and lines = lines]
    initial_frame_nexus(2) [OF loop_start.hyps, where ca = ca and lines = lines]
  show ?case by blast
next
  case (loop_again s0 draws s st act s')
  then obtain c where d0: "distinct (map fst (sg_building_positions s0))"
    and n0: "(c, Nexus) \<in> set (sg_building_positions s0)" by blast
  have bps: "sg_building_positions s = after_destruction env draws (sg_building_positions s0)"
    using loop_again.hyps(2) by (rule tick_head_yield(1))
  have d1: "distinct (map fst (sg_building_positions s))"
    using d0 by (simp add: bps destruction_distinct)
  have n1: "(c, Nexus) \<in> set (sg_building_positions s)"
    using d0 n0 by (simp add: bps destruction_keeps_nexus)
  from tick_tail_extends(2) [OF loop_again.hyps(3)] obtain ext
    where "sg_building_positions s' = sg_building_positions s @ ext" by blast
  then have "(c, Nexus) \<in> set (sg_building_positions s')" using n1 by simp
  moreover have "distinct (map fst (sg_building_positions s'))"
    using tick_tail_extends(3) [OF loop_again.hyps(3)] d1 by simp
  ultimately show ?case by blast
qed

lemma nearest_error: "nearest cur ps = Inl e \<Longrightarrow> e = ValueError"
  by (induction cur ps rule: nearest.induct) (auto split: sum.splits)

lemma next_action_of_error: "next_action_of wa s = Inl e \<Longrightarrow> e = KeyError \<or> e = ValueError"
  by (cases "snd wa")
     (auto simp: next_action_of_def getitem_def dest: nearest_error
        split: sum.splits option.splits if_splits)

lemma foldE_error:
  "foldE f xs s = Inl e \<Longrightarrow> \<exists>x s1. f x s1 = Inl e"
  by (induction xs arbitrary: s) (auto split: sum.splits)

lemma tick_head_assertion:
  assumes "nexus_positions_of (after_destruction env draws (sg_building_positions s0)) \<noteq> []"
  shows "tick_head env draws s0 \<noteq> Inl AssertionError"
proof
  assume a: "tick_head env draws s0 = Inl AssertionError"
  let ?bps = "after_destruction env draws (sg_building_positions s0)"
  let ?s1 = "s0\<lparr>sg_building_positions := ?bps, sg_nexus_positions := nexus_positions_of ?bps\<rparr>"
  from a assms have "foldE next_action_of (sg_assignments ?s1) ?s1 = Inl AssertionError"
    by (auto simp: tick_head_def Let_def split: sum.splits)
  then obtain x s1 where "next_action_of x (s1 :: 'a frame) = Inl AssertionError"
    by (blast dest: foldE_error)
  then show False by (auto dest: next_action_of_error)
qed

text \<open>
  Claim C10. Each time control is at the top of the loop of \<open>state_generator\<close>, a Nexus
  stands among the buildings: \<open>place_objects\<close> puts one on a tile that no later
  placement overwrites, destruction removes no Nexus, and construction only adds
  buildings at free tiles. So whatever the draws of the destruction, the list of Nexus
  positions is not empty, the assertion on it does not fail, and the state that is
  yielded holds a Nexus.
\<close>

theorem C10_nexus_always_standing:
  assumes "loop_top ca env dt deps lines s0"
  shows "Nexus \<in> snd ` set (sg_building_positions s0)
     \<and> (\<forall>draws. nexus_positions_of (after_destruction env draws (sg_building_positions s0)) \<noteq> []
                \<and> tick_head env draws s0 \<noteq> Inl AssertionError)
     \<and> (\<forall>draws s st. tick_head env draws s0 = Inr (s, st)
           \<longrightarrow> Nexus \<in> snd ` set (building_positions st) \<and> sg_nexus_positions s \<noteq> [])"
proof -
  from loop_top_invariant [OF assms] obtain c
    where d0: "distinct (map fst (sg_building_positions s0))"
      and n0: "(c, Nexus) \<in> set (sg_building_positions s0)" by blast
  have kept: "\<And>draws. (c, Nexus) \<in> set (after_destruction env draws (sg_building_positions s0))"
    using d0 n0 by (rule destruction_keeps_nexus)
  have ne: "\<And>draws. nexus_positions_of (after_destruction env draws (sg_building_positions s0)) \<noteq> []"
    using kept by (rule nexus_positions_of_nonempty)
  have "Nexus \<in> snd ` set (sg_building_positions s0)"
    using n0 by force
  moreover have "\<And>draws. tick_head env draws s0 \<noteq> Inl AssertionError"
    using ne by (rule tick_head_assertion)
  moreover have "\<And>draws s st. tick_head env draws s0 = Inr (s, st)
      \<Longrightarrow> Nexus \<in> snd ` set (building_positions st) \<and> sg_nexus_positions s \<noteq> []"
  proof -
    fix draws s st
    assume th: "tick_head env draws s0 = Inr (s, st)"
    have "sg_building_positions s = after_destruction env draws (sg_building_positions s0)"
      using th by (rule tick_head_yield(1))
    then have "(c, Nexus) \<in> set (sg_building_positions s)" using kept by simp
    then have "Nexus \<in> snd ` set (sg_building_positions s)" by force
    moreover have "building_positions st = sg_building_positions s"
      using tick_head_yield(5) [OF th] by (simp add: snapshot_def)
    moreover have "sg_nexus_positions s \<noteq> []"
      using tick_head_yield(3,4) [OF th] by simp
    ultimately show "Nexus \<in> snd ` set (building_positions st) \<and> sg_nexus_positions s \<noteq> []"
      by simp
  qed
  ultimately show ?thesis using ne by blast
qed

theorem C10_nexus_always_standing_witness:
  "Nexus \<in> snd ` set (sg_building_positions (initial_frame ca0 (env0 True) dt0 lines0 placed0))
   \<and> nexus_positions_of (after_destruction (env0 True) [0]
        (sg_building_positions (initial_frame ca0 (env0 True) dt0 lines0 placed0))) \<noteq> []
   \<and> tick_head (env0 True) [0] (initial_frame ca0 (env0 True) dt0 lines0 placed0)
        \<noteq> Inl AssertionError"
  using C10_nexus_always_standing
    [OF loop_start [where ca = ca0 and dependencies = deps0 and lines = lines0,
        OF place_objects_placed0]]
  by blast

subsection \<open>The dependency map\<close>

lemma np_round_choice: "np_round x = \<lfloor>x\<rfloor> \<or> np_round x = \<lfloor>x\<rfloor> + 1"
  by (simp add: np_round_def Let_def)

lemma np_round_nonneg: "0 \<le> x \<Longrightarrow> 0 \<le> np_round x"
  using np_round_choice [of x] by (auto intro: add_nonneg_nonneg)

lemma np_round_le:
  assumes "x \<le> of_int k"
  shows "np_round x \<le> k"
proof (cases "\<lfloor>x\<rfloor> = k")
  case True
  then have "x = of_int k"
    using assms of_int_floor_le [of x] by simp
  then show ?thesis by (simp add: np_round_def)
next
  case False
  moreover have "\<lfloor>x\<rfloor> \<le> k" using assms by (simp add: floor_le_iff)
  ultimately have "\<lfloor>x\<rfloor> + 1 \<le> k" by simp
  then show ?thesis using np_round_choice [of x] by auto
qed

lemma dependency_index_bounds:
  assumes "0 \<le> u" and "u \<le> 1"
  shows "- 1 \<le> np_round (u * of_nat i) - 1" and "np_round (u * of_nat i) - 1 < int i"
proof -
  have "0 \<le> u * of_nat i" using assms(1) by simp
  then show "- 1 \<le> np_round (u * of_nat i) - 1"
    using np_round_nonneg [of "u * of_nat i"] by simp
  have "u * of_nat i \<le> 1 * of_nat i"
    using assms(2) by (intro mult_right_mono) simp_all
  then have "u * of_nat i \<le> of_int (int i)" by simp
  then show "np_round (u * of_nat i) - 1 < int i"
    using np_round_le [of "u * of_nat i" "int i"] by simp
qed

lemma mapE_total:
  "(\<And>x. x \<in> set xs \<Longrightarrow> f x = Inr (g x)) \<Longrightarrow> mapE f xs = Inr (map g xs)"
  by (induction xs) auto

lemma zip_longest_length:
  "length ys \<le> length xs \<Longrightarrow> length (zip_longest xs ys) = length xs"
  by (induction xs ys rule: zip_longest.induct) auto

lemma zip_longest_nth:
  "length ys \<le> length xs \<Longrightarrow> i < length xs
     \<Longrightarrow> zip_longest xs ys ! i = (xs ! i, if i < length ys then ys ! i else None)"
proof (induction xs ys arbitrary: i rule: zip_longest.induct)
  case (1 ys)
  then show ?case by simp
next
  case (2 x xs)
  then show ?case by (cases i) auto
next
  case (3 x xs y ys)
  then show ?case by (cases i) auto
qed

lemma zip_longest_keys:
  "length ys \<le> length xs \<Longrightarrow> map fst (zip_longest xs ys) = xs"
  by (induction xs ys rule: zip_longest.induct) auto

text \<open>The shape of the result.\<close>

lemma build_dependencies_shape:
  assumes range: "list_all (\<lambda>u. 0 \<le> u \<and> u \<le> 1) us" and md: "0 \<le> max_depth"
  shows "\<exists>ds. build_dependencies buildings us max_depth
                 = Inr ((Assimilator, None) # zip_longest buildings ds)
          \<and> length ds \<le> length buildings
          \<and> (\<forall>i<length ds. ds ! i = None \<or> (\<exists>j<i. ds ! i = Some (buildings ! j)))"
proof -
  define n where "n = nat (min max_depth (int (length buildings)))"
  define idx where "idx = map (\<lambda>(u, i). np_round (u * of_nat i) - 1) (zip us [0..<n])"
  have n_le: "n \<le> length buildings" using md by (simp add: n_def)
  have len: "length idx \<le> n" by (simp add: idx_def)
  have bounds: "- 1 \<le> idx ! k \<and> idx ! k < int k" if "k < length idx" for k
  proof -
    from that have k: "k < length us" "k < n" by (simp_all add: idx_def)
    then have "idx ! k = np_round (us ! k * of_nat k) - 1"
      by (simp add: idx_def)
    moreover have "0 \<le> us ! k \<and> us ! k \<le> 1"
      using range k(1) by (simp add: list_all_length)
    ultimately show ?thesis
      using dependency_index_bounds [of "us ! k" k] by simp
  qed
  have "dependency_at buildings x = Inr (dep_val buildings x)" if "x \<in> set idx" for x
  proof -
    from that obtain k where k: "k < length idx" and x: "x = idx ! k"
      by (auto simp: in_set_conv_nth)
    have "x < int k" using bounds [OF k] x by simp
    then have "x < 0 \<or> nat x < length buildings" using k len n_le by linarith
    then show ?thesis by (auto simp: dependency_at_def dep_val_def)
  qed
  then have me: "mapE (dependency_at buildings) idx = Inr (map (dep_val buildings) idx)"
    by (rule mapE_total)
  have "\<not> min max_depth (int (length buildings)) < 0" using md by simp
  then have "build_dependencies buildings us max_depth
          = Inr ((Assimilator, None) # zip_longest buildings (map (dep_val buildings) idx))"
    using me by (simp add: build_dependencies_def Let_def idx_def n_def)
  moreover have "length (map (dep_val buildings) idx) \<le> length buildings"
    using len n_le by simp
  moreover have "\<forall>i<length (map (dep_val buildings) idx).
      map (dep_val buildings) idx ! i = None
      \<or> (\<exists>j<i. map (dep_val buildings) idx ! i = Some (buildings ! j))"
  proof (intro allI impI)
    fix i assume i: "i < length (map (dep_val buildings) idx)"
    then have b: "- 1 \<le> idx ! i \<and> idx ! i < int i" using bounds by simp
    show "map (dep_val buildings) idx ! i = None
      \<or> (\<exists>j<i. map (dep_val buildings) idx ! i = Some (buildings ! j))"
    proof (cases "idx ! i < 0")
      case True
      then show ?thesis using i by (simp add: dep_val_def)
    next
      case False
      then have "nat (idx ! i) < i" using b by linarith
      moreover have "map (dep_val buildings) idx ! i = Some (buildings ! nat (idx ! i))"
        using False i by (simp add: dep_val_def)
      ultimately show ?thesis by blast
    qed
  qed
  ultimately show ?thesis by blast
qed

lemma build_dependencies_negative:
  "max_depth < 0 \<Longrightarrow> build_dependencies buildings us max_depth = Inl ValueError"
  by (simp add: build_dependencies_def Let_def)

lemma getitem_dict_of:
  assumes "distinct (map fst kvs)" and "(k, v) \<in> set kvs"
  shows "getitem (dict_of kvs) k = Inr v"
proof -
  have "distinct (map fst (rev kvs))" using assms(1) by (simp add: rev_map [symmetric])
  moreover have "(k, v) \<in> set (rev kvs)" using assms(2) by simp
  ultimately have "map_of (rev kvs) k = Some v" by (rule map_of_is_SomeI)
  then show ?thesis
    by (simp add: getitem_def dict_of_def map_of_foldl_update)
qed

lemma chain_terminates:
  assumes dist: "distinct buildings"
    and look: "\<And>i. i < length buildings \<Longrightarrow>
        \<exists>d. getitem D (buildings ! i) = Inr d \<and> (d = None \<or> (\<exists>j<i. d = Some (buildings ! j)))"
  shows "i < length buildings \<Longrightarrow> i + 2 \<le> limit \<Longrightarrow>
     \<exists>chain. instructions_for limit D (Some (buildings ! i)) = Inr chain
        \<and> set chain \<subseteq> (\<lambda>j. buildings ! j) ` {..i} \<and> distinct chain
        \<and> chain \<noteq> [] \<and> last chain = buildings ! i"
proof (induction i arbitrary: limit rule: less_induct)
  case (less i)
  from less.prems(2) obtain k where limit: "limit = Suc (Suc k)" and k: "i \<le> k"
    by (metis add_2_eq_Suc' le_Suc_ex add_Suc le_add1)
  from look [OF less.prems(1)] obtain d where d: "getitem D (buildings ! i) = Inr d"
    and shape: "d = None \<or> (\<exists>j<i. d = Some (buildings ! j))" by blast
  show ?case
  proof (cases d)
    case None
    then have "instructions_for limit D (Some (buildings ! i)) = Inr [buildings ! i]"
      using d by (simp add: limit)
    then show ?thesis by simp
  next
    case (Some b)
    with shape obtain j where j: "j < i" and b: "d = Some (buildings ! j)" by auto
    have "j < length buildings" using j less.prems(1) by simp
    moreover have "j + 2 \<le> Suc k" using j k by simp
    ultimately obtain chain where c: "instructions_for (Suc k) D (Some (buildings ! j)) = Inr chain"
      and sub: "set chain \<subseteq> (\<lambda>j. buildings ! j) ` {..j}" and dc: "distinct chain"
      using less.IH [OF j] by blast
    have run: "instructions_for limit D (Some (buildings ! i)) = Inr (chain @ [buildings ! i])"
      using d b c by (simp add: limit)
    have "buildings ! i \<notin> set chain"
    proof
      assume "buildings ! i \<in> set chain"
      with sub obtain j' where "j' \<le> j" and "buildings ! i = buildings ! j'" by auto
      with j less.prems(1) dist show False
        by (simp add: nth_eq_iff_index_eq)
    qed
    moreover have "set (chain @ [buildings ! i]) \<subseteq> (\<lambda>j. buildings ! j) ` {..i}"
      using sub j by auto
    ultimately show ?thesis using run dc by auto
  qed
qed

text \<open>
  Claim C4. Let the buildings of \<open>data_types\<close> be distinct and \<open>buildings\<close> be their
  shuffle without the Assimilator. For every \<open>max_depth\<close> for which \<open>random(n)\<close> does not
  raise (\<open>build_dependencies_negative\<close> is the other case), \<open>build_dependencies\<close> yields
  the Assimilator first, with no dependency, then every building of the shuffle in its
  order, its dependency being \<open>None\<close> or a building of strictly smaller shuffle index.
  Hence from any building \<open>instructions_for\<close>, which follows the dependencies of the
  dictionary made of these pairs, returns within a recursion depth of the number of
  buildings plus two, and its chain visits no building twice.
\<close>

theorem C4_dependencies_acyclic:
  assumes "distinct (Buildings dt)" and "shuffled dt buildings"
    and "list_all (\<lambda>u. 0 \<le> u \<and> u \<le> 1) us" and "0 \<le> max_depth"
  shows "\<exists>deps. build_dependencies buildings us max_depth = Inr deps
     \<and> hd deps = (Assimilator, None)
     \<and> map fst (tl deps) = buildings
     \<and> (\<forall>i<length buildings.
           snd (deps ! Suc i) = None \<or> (\<exists>j<i. snd (deps ! Suc i) = Some (buildings ! j)))
     \<and> (\<forall>b\<in>set (Assimilator # buildings). \<forall>limit\<ge>length buildings + 2.
           \<exists>chain. instructions_for limit (dict_of deps) (Some b) = Inr chain
              \<and> distinct chain \<and> last chain = b)"
proof -
  have "distinct (filter (\<lambda>b. b \<noteq> Assimilator) (Buildings dt))"
    using assms(1) by simp
  then have dist: "distinct buildings"
    using assms(2) mset_eq_imp_distinct_iff [of buildings "filter (\<lambda>b. b \<noteq> Assimilator) (Buildings dt)"]
    unfolding shuffled_def by blast
  have "set buildings = set (filter (\<lambda>b. b \<noteq> Assimilator) (Buildings dt))"
    using assms(2) unfolding shuffled_def by (rule mset_eq_setD)
  then have noA: "Assimilator \<notin> set buildings" by simp
  from build_dependencies_shape [OF assms(3,4), of buildings] obtain ds
    where run: "build_dependencies buildings us max_depth
                 = Inr ((Assimilator, None) # zip_longest buildings ds)"
      and len: "length ds \<le> length buildings"
      and ds: "\<forall>i<length ds. ds ! i = None \<or> (\<exists>j<i. ds ! i = Some (buildings ! j))"
    by blast
  let ?zl = "zip_longest buildings ds"
  let ?deps = "(Assimilator, None) # ?zl"
  have keys: "map fst ?zl = buildings" using len by (rule zip_longest_keys)
  have nth: "?zl ! i = (buildings ! i, if i < length ds then ds ! i else None)"
    if "i < length buildings" for i
    using len that by (rule zip_longest_nth)
  have older: "snd (?zl ! i) = None \<or> (\<exists>j<i. snd (?zl ! i) = Some (buildings ! j))"
    if "i < length buildings" for i
    using nth [OF that] ds by auto
  have dk: "distinct (map fst ?deps)" using keys dist noA by simp
  have look: "\<exists>d. getitem (dict_of ?deps) (buildings ! i) = Inr d
                \<and> (d = None \<or> (\<exists>j<i. d = Some (buildings ! j)))"
    if "i < length buildings" for i
  proof -
    have "length ?zl = length buildings" using len by (rule zip_longest_length)
    then have "?zl ! i \<in> set ?zl" using that by simp
    then have "(buildings ! i, snd (?zl ! i)) \<in> set ?deps"
      using nth [OF that] by simp
    then have "getitem (dict_of ?deps) (buildings ! i) = Inr (snd (?zl ! i))"
      using dk by (intro getitem_dict_of)
    then show ?thesis using older [OF that] by blast
  qed
  have chains: "\<exists>chain. instructions_for limit (dict_of ?deps) (Some b) = Inr chain
                  \<and> distinct chain \<and> last chain = b"
    if b: "b \<in> set (Assimilator # buildings)" and limit: "length buildings + 2 \<le> limit"
    for b limit
  proof (cases "b = Assimilator")
    case True
    have "getitem (dict_of ?deps) Assimilator = Inr None"
      using dk by (intro getitem_dict_of) simp_all
    moreover obtain k where "limit = Suc (Suc k)"
      using limit by (metis add_2_eq_Suc' le_Suc_ex add_Suc)
    ultimately have "instructions_for limit (dict_of ?deps) (Some Assimilator) = Inr [Assimilator]"
      by simp
    then show ?thesis using True by simp
  next
    case False
    with b obtain i where i: "i < length buildings" and bi: "b = buildings ! i"
      by (auto simp: in_set_conv_nth)
    have "i + 2 \<le> limit" using i limit by simp
    from chain_terminates [of buildings "dict_of ?deps", OF dist look i this]
    show ?thesis using bi by blast
  qed
  have "hd ?deps = (Assimilator, None)" by simp
  moreover have "map fst (tl ?deps) = buildings" using keys by simp
  moreover have "\<forall>i<length buildings.
      snd (?deps ! Suc i) = None \<or> (\<exists>j<i. snd (?deps ! Suc i) = Some (buildings ! j))"
    using older by simp
  moreover have "\<forall>b\<in>set (Assimilator # buildings). \<forall>limit\<ge>length buildings + 2.
      \<exists>chain. instructions_for limit (dict_of ?deps) (Some b) = Inr chain
         \<and> distinct chain \<and> last chain = b"
    using chains by blast
  ultimately show ?thesis using run by blast
qed

theorem C4_dependencies_acyclic_witness:
  "\<exists>chain. instructions_for 4 (dict_of deps1) (Some (OtherBuilding 0)) = Inr chain
      \<and> distinct chain \<and> last chain = OtherBuilding 0"
proof -
  have d: "distinct (Buildings dt0)" by (simp add: dt0_def)
  have s: "shuffled dt0 [Nexus, OtherBuilding 0]" by (simp add: shuffled_def dt0_def)
  have r: "list_all (\<lambda>u. 0 \<le> u \<and> u \<le> 1) [0, 3 / 4 :: rat]" by simp
  from C4_dependencies_acyclic [OF d s r, of 2] obtain deps
    where run: "build_dependencies [Nexus, OtherBuilding 0] [0, 3 / 4] 2 = Inr deps"
      and chains: "\<forall>b\<in>set (Assimilator # [Nexus, OtherBuilding 0]).
          \<forall>limit\<ge>length [Nexus, OtherBuilding 0] + 2.
            \<exists>chain. instructions_for limit (dict_of deps) (Some b) = Inr chain
               \<and> distinct chain \<and> last chain = b"
    by auto
  from run have "deps = deps1" by (simp add: build_dependencies_deps1)
  with chains show ?thesis by simp
qed

subsection \<open>The instruction list\<close>

lemma instructions_for_last:
  "instructions_for limit deps (Some b) = Inr inst \<Longrightarrow> inst \<noteq> [] \<and> last inst = b"
  by (cases limit) (auto split: sum.splits)

lemma instructions_for_error:
  "instructions_for limit deps b = Inl e \<Longrightarrow> e = RecursionError \<or> e = KeyError"
  by (induction limit deps b rule: instructions_for.induct)
     (auto simp: getitem_def split: sum.splits option.splits)

lemma required_assimilators_filter:
  "required_assimilators ls = length (filter (\<lambda>l. required l \<and> building l = Assimilator) ls)"
  by (induction ls) (auto simp: required_assimilators_def)

lemma required_assimilators_append:
  "required_assimilators (xs @ ys) = required_assimilators xs + required_assimilators ys"
  by (simp add: required_assimilators_filter)

lemma required_assimilators_not_required:
  "required_assimilators (map (line False) bs) = 0"
  by (induction bs) (auto simp: required_assimilators_filter line_def)

lemma required_assimilators_required:
  "required_assimilators (line True b # ls)
     = (if b = Assimilator then 1 else 0) + required_assimilators ls"
  by (simp add: required_assimilators_filter line_def)

lemma random_instructions_under_result:
  "random_instructions_under limit dt deps n inc draws = Some (Inr ls)
     \<Longrightarrow> int (length ls) = n
         \<and> required_assimilators ls \<le> (if inc then 1 else 0)
         \<and> whole_chains limit dt deps ls"
proof (induction draws arbitrary: n inc ls)
  case Nil
  then show ?case
    by (auto simp: required_assimilators_filter split: if_splits intro: chains_none)
next
  case (Cons r rs)
  show ?case
  proof (cases "n \<le> 0")
    case True
    then show ?thesis using Cons.prems
      by (auto simp: required_assimilators_filter split: if_splits intro: chains_none)
  next
    case False
    define candidates where
      "candidates = filter (\<lambda>b. inc \<or> b \<noteq> Assimilator) (Buildings dt)"
    define bldg where "bldg = candidates ! (r mod length candidates)"
    have unfolded: "random_instructions_under limit dt deps n inc (r # rs) =
        (if candidates = [] then Some (Inl ValueError)
         else case instructions_for limit deps (Some bldg) of
                Inl e \<Rightarrow> Some (Inl e)
              | Inr inst \<Rightarrow>
                  if inst = [] then Some (Inl ValueError)
                  else if int (length inst) > n
                  then random_instructions_under limit dt deps n inc rs
                  else
                    (case random_instructions_under limit dt deps (n - int (length inst))
                            (inc \<and> bldg \<noteq> Assimilator) rs of
                       None \<Rightarrow> None
                     | Some (Inl e) \<Rightarrow> Some (Inl e)
                     | Some (Inr rest) \<Rightarrow>
                         Some (Inr (map (line False) (butlast inst)
                                    @ [line True (last inst)] @ rest))))"
      using False
      unfolding random_instructions_under.simps Let_def candidates_def bldg_def
      by simp
    from Cons.prems have ne: "candidates \<noteq> []"
      unfolding unfolded by (simp split: if_splits)
    then have mem: "bldg \<in> set candidates"
      unfolding bldg_def by (intro nth_mem mod_less_divisor) simp
    from Cons.prems ne obtain inst where inst: "instructions_for limit deps (Some bldg) = Inr inst"
      unfolding unfolded by (auto split: sum.splits)
    then have last: "inst \<noteq> []" "last inst = bldg"
      using instructions_for_last by blast+
    show ?thesis
    proof (cases "int (length inst) > n")
      case True
      then have "random_instructions_under limit dt deps n inc rs = Some (Inr ls)"
        using Cons.prems ne inst last(1) unfolding unfolded by simp
      then show ?thesis by (rule Cons.IH)
    next
      case fits: False
      with Cons.prems ne inst last(1) obtain rest where
        rest: "random_instructions_under limit dt deps (n - int (length inst))
                 (inc \<and> bldg \<noteq> Assimilator) rs = Some (Inr rest)"
        and ls: "ls = map (line False) (butlast inst) @ [line True (last inst)] @ rest"
        unfolding unfolded by (auto split: option.splits sum.splits)
      note ih = Cons.IH [OF rest]
      have "length (butlast inst) + 1 = length inst" using last(1) by simp
      then have "int (length (butlast inst)) + 1 = int (length inst)" by linarith
      moreover have "int (length rest) = n - int (length inst)" using ih by simp
      moreover have "length ls = length (butlast inst) + 1 + length rest"
        by (simp add: ls)
      ultimately have "int (length ls) = n" by linarith
      moreover have "required_assimilators ls \<le> (if inc then 1 else 0)"
      proof (cases "bldg = Assimilator")
        case True
        then have "inc" using mem by (auto simp: candidates_def)
        moreover have "required_assimilators rest = 0" using ih True by simp
        ultimately show ?thesis
          by (simp add: ls required_assimilators_append required_assimilators_not_required
                required_assimilators_required)
      next
        case False
        then show ?thesis using ih last(2)
          by (simp add: ls required_assimilators_append required_assimilators_not_required
                required_assimilators_required)
      qed
      moreover have "whole_chains limit dt deps ls"
        unfolding ls using _ inst
      proof (rule chains_more)
        show "bldg \<in> set (Buildings dt)" using mem by (simp add: candidates_def)
        show "whole_chains limit dt deps rest" using ih by simp
      qed
      ultimately show ?thesis by simp
    qed
  qed
qed

lemma random_instructions_under_error:
  "random_instructions_under limit dt deps n inc draws = Some (Inl e) \<Longrightarrow> e \<noteq> AssertionError"
proof (induction draws arbitrary: n inc)
  case Nil
  then show ?case by (auto split: if_splits)
next
  case (Cons r rs)
  then show ?case
    by (auto simp: Let_def split: if_splits sum.splits option.splits
          dest: instructions_for_error)
qed

lemma build_lines_assertion:
  "build_lines limit dt deps n_lines draws \<noteq> Some (Inl AssertionError)"
proof
  assume a: "build_lines limit dt deps n_lines draws = Some (Inl AssertionError)"
  show False
  proof (cases "random_instructions_under limit dt deps n_lines True draws")
    case None
    then show ?thesis using a by (simp add: build_lines_def)
  next
    case (Some res)
    show ?thesis
    proof (cases res)
      case (Inl e)
      then show ?thesis
        using a Some random_instructions_under_error [of limit dt deps n_lines True draws e]
        by (simp add: build_lines_def)
    next
      case (Inr ls)
      then show ?thesis
        using a Some random_instructions_under_result [of limit dt deps n_lines True draws ls]
        by (simp add: build_lines_def split: if_splits)
    qed
  qed
qed

text \<open>
  Claim C5. Let the sampled count \<open>n_lines\<close> be positive and at most \<open>max_lines\<close>. Every
  list that \<open>build_lines\<close> returns has exactly \<open>n_lines\<close> lines, hence at most \<open>max_lines\<close>;
  it is a sequence of whole dependency chains, each ending in its required line; and at
  most one of its lines is a required Assimilator. The assertion at the end of
  \<open>build_lines\<close> never fails (\<open>build_lines_assertion\<close>). The theorem holds for every
  dependency map; on an acyclic one each chain is found (claim C4).
\<close>

theorem C5_instruction_budget:
  assumes "build_lines limit dt deps n_lines draws = Some (Inr ls)"
    and "0 < n_lines" and "n_lines \<le> max_lines env"
  shows "int (length ls) = n_lines
     \<and> int (length ls) \<le> max_lines env
     \<and> length (filter (\<lambda>l. required l \<and> building l = Assimilator) ls) \<le> 1
     \<and> whole_chains limit dt deps ls"
proof -
  from assms(1) have "random_instructions_under limit dt deps n_lines True draws = Some (Inr ls)"
    by (auto simp: build_lines_def split: option.splits sum.splits if_splits)
  from random_instructions_under_result [OF this] assms(3) show ?thesis
    by (simp add: required_assimilators_filter)
qed

lemma build_lines_example:
  "build_lines 10 dt0 deps1 2 [2] = Some (Inr [line False Nexus, line True (OtherBuilding 0)])"
  by code_simp

theorem C5_instruction_budget_witness:
  "length [line False Nexus, line True (OtherBuilding 0)] = 2
   \<and> length (filter (\<lambda>l. required l \<and> building l = Assimilator)
               [line False Nexus, line True (OtherBuilding 0)]) \<le> 1
   \<and> whole_chains 10 dt0 deps1 [line False Nexus, line True (OtherBuilding 0)]"
  using C5_instruction_budget [OF build_lines_example, of "env0 False"]
  by (simp add: env0_def)

end
